theory Spec2Isabelle
  imports Complex_Main
begin

section \<open>Sound-wave synthesis: an embedding of \<open>solution_script.py\<close>\<close>

text \<open>
  The program computes with Python floats and NumPy \<open>float64\<close> arrays. A float is
  modelled as a real number or one of the three special values. The special values are
  kept because the program reaches them: NumPy divides by zero without raising, and
  \<open>float\<close> parses \<open>inf\<close> and \<open>nan\<close>.

  Rounding to a double is modelled where a float decides how many samples a timeline
  has: in the value that \<open>float\<close> reads from a literal, and in the product
  \<open>SAMPLING_RATE * duration\<close> that \<open>int\<close> truncates. The sample values and the
  ADSR envelope are computed in the reals. Overflow of finite results and the sign of
  zero are not modelled.
\<close>

subsection \<open>Python errors\<close>

datatype error = KeyError | IndexError | ValueError | OverflowError | FileNotFoundError

subsection \<open>Floats\<close>

datatype npfloat = Num real | PInf | NInf | NaN

fun fsign :: "npfloat \<Rightarrow> real" where
  "fsign (Num x) = sgn x"
| "fsign PInf = 1"
| "fsign NInf = - 1"
| "fsign NaN = 0"

definition signed_inf :: "real \<Rightarrow> npfloat" where
  "signed_inf s = (if 0 < s then PInf else if s < 0 then NInf else NaN)"

fun np_mul :: "npfloat \<Rightarrow> npfloat \<Rightarrow> npfloat" where
  "np_mul NaN b = NaN"
| "np_mul a NaN = NaN"
| "np_mul (Num x) (Num y) = Num (x * y)"
| "np_mul a b = signed_inf (fsign a * fsign b)"

fun np_div :: "npfloat \<Rightarrow> npfloat \<Rightarrow> npfloat" where
  "np_div NaN b = NaN"
| "np_div a NaN = NaN"
| "np_div (Num x) (Num y) = (if y = 0 then signed_inf (sgn x) else Num (x / y))"
| "np_div (Num x) b = Num 0"
| "np_div a (Num y) = signed_inf (fsign a * (if y < 0 then - 1 else 1))"
| "np_div a b = NaN"

fun np_add :: "npfloat \<Rightarrow> npfloat \<Rightarrow> npfloat" where
  "np_add NaN b = NaN"
| "np_add a NaN = NaN"
| "np_add (Num x) (Num y) = Num (x + y)"
| "np_add PInf NInf = NaN"
| "np_add NInf PInf = NaN"
| "np_add (Num x) b = b"
| "np_add a b = a"

fun np_neg :: "npfloat \<Rightarrow> npfloat" where
  "np_neg (Num x) = Num (- x)"
| "np_neg PInf = NInf"
| "np_neg NInf = PInf"
| "np_neg NaN = NaN"

definition np_sub :: "npfloat \<Rightarrow> npfloat \<Rightarrow> npfloat" where
  "np_sub a b = np_add a (np_neg b)"

fun np_abs :: "npfloat \<Rightarrow> npfloat" where
  "np_abs (Num x) = Num \<bar>x\<bar>"
| "np_abs PInf = PInf"
| "np_abs NInf = PInf"
| "np_abs NaN = NaN"

fun np_sign :: "npfloat \<Rightarrow> npfloat" where
  "np_sign (Num x) = Num (sgn x)"
| "np_sign PInf = Num 1"
| "np_sign NInf = Num (- 1)"
| "np_sign NaN = NaN"

fun np_floor :: "npfloat \<Rightarrow> npfloat" where
  "np_floor (Num x) = Num (of_int \<lfloor>x\<rfloor>)"
| "np_floor a = a"

fun np_sin :: "npfloat \<Rightarrow> npfloat" where
  "np_sin (Num x) = Num (sin x)"
| "np_sin a = NaN"

text \<open>\<open>np.maximum\<close> of two floats: a NaN operand gives NaN.\<close>

fun np_maximum :: "npfloat \<Rightarrow> npfloat \<Rightarrow> npfloat" where
  "np_maximum NaN b = NaN"
| "np_maximum a NaN = NaN"
| "np_maximum PInf b = PInf"
| "np_maximum a PInf = PInf"
| "np_maximum NInf b = b"
| "np_maximum a NInf = a"
| "np_maximum (Num x) (Num y) = Num (max x y)"

text \<open>\<open>np.max\<close> of an array: an empty array raises \<open>ValueError\<close>.\<close>

fun np_max :: "npfloat list \<Rightarrow> error + npfloat" where
  "np_max [] = Inl ValueError"
| "np_max (x # xs) = Inr (foldl np_maximum x xs)"

text \<open>
  \<open>int(x)\<close> on a float truncates toward zero; it raises \<open>ValueError\<close> on NaN and
  \<open>OverflowError\<close> on an infinity.
\<close>

definition trunc :: "real \<Rightarrow> int" where
  "trunc x = (if 0 \<le> x then \<lfloor>x\<rfloor> else \<lceil>x\<rceil>)"

fun py_int :: "npfloat \<Rightarrow> error + int" where
  "py_int (Num x) = Inr (trunc x)"
| "py_int NaN = Inl ValueError"
| "py_int a = Inl OverflowError"

subsection \<open>Rounding to a double\<close>

text \<open>
  The nearest integer, a tie going to the even one.
\<close>

definition round_half_even :: "real \<Rightarrow> int" where
  "round_half_even r =
     (let f = \<lfloor>r\<rfloor>
      in if r - of_int f < 1 / 2 then f
         else if 1 / 2 < r - of_int f then f + 1
         else if even f then f else f + 1)"

text \<open>
  A double has a significand of 53 bits: between \<open>2^e\<close> and \<open>2^(e+1)\<close> the doubles
  are the multiples of \<open>2^(e-52)\<close>, the unit in the last place. The range of the
  exponent is not bounded here: no overflow to an infinity, no subnormal numbers.
\<close>

definition ulp :: "real \<Rightarrow> real" where
  "ulp x = 2 powi (\<lfloor>log 2 \<bar>x\<bar>\<rfloor> - 52)"

text \<open>
  The double nearest to a real number, a tie going to the even significand: what a
  float operation returns for an exact result \<open>x\<close>.
\<close>

definition round_double :: "real \<Rightarrow> real" where
  "round_double x = (if x = 0 then 0 else ulp x * of_int (round_half_even (x / ulp x)))"

text \<open>The product \<open>a * b\<close> of two Python floats.\<close>

definition py_float_mul :: "npfloat \<Rightarrow> npfloat \<Rightarrow> npfloat" where
  "py_float_mul a b = (case np_mul a b of Num r \<Rightarrow> Num (round_double r) | y \<Rightarrow> y)"

subsection \<open>Module constants\<close>

text \<open>
  The sampling rate is the module constant \<open>SAMPLING_RATE\<close>. The timelines and the
  functions of the melody path that read it are defined below for a rate given as a
  parameter, under the name of the source with the suffix \<open>_at\<close>; the function of the
  source is the instance at \<open>SAMPLING_RATE\<close> and has the name of the source.
\<close>

definition SAMPLING_RATE :: nat where
  "SAMPLING_RATE = 44100"

definition DURATION_SECONDS :: nat where
  "DURATION_SECONDS = 5"

definition SOUND_ARRAY_LEN_at :: "nat \<Rightarrow> nat" where
  "SOUND_ARRAY_LEN_at rate = rate * DURATION_SECONDS"

abbreviation SOUND_ARRAY_LEN :: nat where
  "SOUND_ARRAY_LEN \<equiv> SOUND_ARRAY_LEN_at SAMPLING_RATE"

definition MAX_AMPLITUDE :: nat where
  "MAX_AMPLITUDE = 2 ^ 13"

text \<open>The note table, in the order of the source. The first entry is the rest.\<close>

definition NOTES :: "(string \<times> real) list" where
  "NOTES = [
    (''0'', 0), (''e0'', 20.60172), (''f0'', 21.82676), (''f#0'', 23.12465), (''g0'', 24.49971), (''g#0'', 25.95654), (''a0'', 27.50000), (''a#0'', 29.13524),
    (''b0'', 30.86771), (''c0'', 32.70320), (''c#0'', 34.64783), (''d0'', 36.70810), (''d#0'', 38.89087),
    (''e1'', 41.20344), (''f1'', 43.65353), (''f#1'', 46.24930), (''g1'', 48.99943), (''g#1'', 51.91309), (''a1'', 55.00000), (''a#1'', 58.27047),
    (''b1'', 61.73541), (''c1'', 65.40639), (''c#1'', 69.29566), (''d1'', 73.41619), (''d#1'', 77.78175),
    (''e2'', 82.40689), (''f2'', 87.30706), (''f#2'', 92.49861), (''g2'', 97.99886), (''g#2'', 103.8262), (''a2'', 110.0000), (''a#2'', 116.5409),
    (''b2'', 123.4708), (''c2'', 130.8128), (''c#2'', 138.5913), (''d2'', 146.8324), (''d#2'', 155.5635),
    (''e3'', 164.8138), (''f3'', 174.6141), (''f#3'', 184.9972), (''g3'', 195.9977), (''g#3'', 207.6523), (''a3'', 220.0000), (''a#3'', 233.0819),
    (''b3'', 246.9417), (''c3'', 261.6256), (''c#3'', 277.1826), (''d3'', 293.6648), (''d#3'', 311.1270),
    (''e4'', 329.6276), (''f4'', 349.2282), (''f#4'', 369.9944), (''g4'', 391.9954), (''g#4'', 415.3047), (''a4'', 440.0000), (''a#4'', 466.1638),
    (''b4'', 493.8833), (''c4'', 523.2511), (''c#4'', 554.3653), (''d4'', 587.3295), (''d#4'', 622.2540),
    (''e5'', 659.2551), (''f5'', 698.4565), (''f#5'', 739.9888), (''g5'', 783.9909), (''g#5'', 830.6094), (''a5'', 880.0000), (''a#5'', 932.3275),
    (''b5'', 987.7666), (''c5'', 1046.502), (''c#5'', 1108.731), (''d5'', 1174.659), (''d#5'', 1244.508),
    (''e6'', 1318.510), (''f6'', 1396.913), (''f#6'', 1479.978), (''g6'', 1567.982), (''g#6'', 1661.219), (''a6'', 1760.000), (''a#6'', 1864.655),
    (''b6'', 1975.533), (''c6'', 2093.005), (''c#6'', 2217.461), (''d6'', 2349.318), (''d#6'', 2489.016),
    (''e7'', 2637.020), (''f7'', 2793.826), (''f#7'', 2959.955), (''g7'', 3135.963), (''g#7'', 3322.438), (''a7'', 3520.000), (''a#7'', 3729.310),
    (''b7'', 3951.066), (''c7'', 4186.009), (''c#7'', 4434.922), (''d7'', 4698.636), (''d#7'', 4978.032)
  ]"

text \<open>\<open>NOTES[name]\<close>: a missing key raises \<open>KeyError\<close>.\<close>

definition frequency :: "string \<Rightarrow> error + real" where
  "frequency name = (case map_of NOTES name of None \<Rightarrow> Inl KeyError | Some f \<Rightarrow> Inr f)"

subsection \<open>Timelines\<close>

text \<open>
  \<open>np.linspace(0, stop, num=n, endpoint=...)\<close>, for a count that is not negative. The
  divisor is \<open>n\<close> when the endpoint is excluded and \<open>n - 1\<close> when it is included;
  with a positive divisor the points are \<open>k * (stop / divisor)\<close>, otherwise
  \<open>k * stop\<close>. With the endpoint included and more than one point, the last point is
  overwritten by \<open>stop\<close>.
\<close>

definition linspace_points :: "npfloat \<Rightarrow> nat \<Rightarrow> bool \<Rightarrow> npfloat list" where
  "linspace_points stop n endpoint =
     (let dv = (if endpoint then n - 1 else n);
          step = (if 0 < dv then np_div stop (Num (real dv)) else stop);
          y = map (\<lambda>k. np_mul (Num (real k)) step) [0..<n]
      in if endpoint \<and> 1 < n then y[n - 1 := stop] else y)"

text \<open>A negative count raises \<open>ValueError\<close>.\<close>

definition np_linspace :: "npfloat \<Rightarrow> int \<Rightarrow> bool \<Rightarrow> error + npfloat list" where
  "np_linspace stop num endpoint =
     (if num < 0 then Inl ValueError else Inr (linspace_points stop (nat num) endpoint))"

definition common_timeline_at :: "nat \<Rightarrow> npfloat list" where
  "common_timeline_at rate =
     linspace_points (Num (real DURATION_SECONDS)) (SOUND_ARRAY_LEN_at rate) True"

abbreviation common_timeline :: "npfloat list" where
  "common_timeline \<equiv> common_timeline_at SAMPLING_RATE"

text \<open>
  \<open>set_custom_common_timeline(duration)\<close>. The count is
  \<open>int(SAMPLING_RATE * duration)\<close>: the product is a float product, rounded to a
  double before \<open>int\<close> truncates it.
\<close>

definition set_custom_common_timeline_at :: "nat \<Rightarrow> npfloat \<Rightarrow> error + npfloat list" where
  "set_custom_common_timeline_at rate duration =
     (case py_int (py_float_mul (Num (real rate)) duration) of
        Inl e \<Rightarrow> Inl e
      | Inr sound_array_len \<Rightarrow> np_linspace duration sound_array_len False)"

abbreviation set_custom_common_timeline :: "npfloat \<Rightarrow> error + npfloat list" where
  "set_custom_common_timeline \<equiv> set_custom_common_timeline_at SAMPLING_RATE"

subsection \<open>Sound waves and their synthesis\<close>

record SoundWave =
  note_str :: string
  sound_wave :: "npfloat list"

definition get_normed_sin :: "npfloat list \<Rightarrow> real \<Rightarrow> npfloat list" where
  "get_normed_sin timeline freq =
     map (\<lambda>t. np_mul (Num (real MAX_AMPLITUDE)) (np_sin (np_mul (Num (2 * pi * freq)) t)))
       timeline"

definition get_soundwave :: "npfloat list \<Rightarrow> string \<Rightarrow> error + npfloat list" where
  "get_soundwave timeline note =
     (case frequency note of
        Inl e \<Rightarrow> Inl e
      | Inr f \<Rightarrow> Inr (get_normed_sin timeline f))"

text \<open>
  The optional duration is \<open>None\<close> for the default timeline. The timeline is built
  before the note is looked up, so a bad duration is reported before an unknown note.
\<close>

definition create_sound_wave_at ::
  "nat \<Rightarrow> string \<Rightarrow> npfloat option \<Rightarrow> error + SoundWave" where
  "create_sound_wave_at rate note duration =
     (case (case duration of
              Some d \<Rightarrow> set_custom_common_timeline_at rate d
            | None \<Rightarrow> Inr (common_timeline_at rate)) of
        Inl e \<Rightarrow> Inl e
      | Inr timeline \<Rightarrow>
          (case frequency note of
             Inl e \<Rightarrow> Inl e
           | Inr f \<Rightarrow>
               (case get_soundwave timeline note of
                  Inl e \<Rightarrow> Inl e
                | Inr w \<Rightarrow> Inr \<lparr>note_str = note, sound_wave = w\<rparr>)))"

abbreviation create_sound_wave :: "string \<Rightarrow> npfloat option \<Rightarrow> error + SoundWave" where
  "create_sound_wave \<equiv> create_sound_wave_at SAMPLING_RATE"

subsection \<open>Reading a wave back\<close>

text \<open>
  The files of the working directory, by name. \<open>read_wave_from_txt\<close> runs inside
  them; the parameter makes visible what it reads of them. The two handlers print a
  message and fall through, so the call returns Python's \<open>None\<close>; any other
  exception propagates.
\<close>

type_synonym filesystem = "string \<rightharpoonup> string"

definition read_wave_from_txt :: "filesystem \<Rightarrow> string \<Rightarrow> error + SoundWave option" where
  "read_wave_from_txt fs filename =
     (let note = take (length filename - 4) filename
      in case get_soundwave common_timeline note of
           Inr w \<Rightarrow> Inr (Some \<lparr>note_str = note, sound_wave = w\<rparr>)
         | Inl FileNotFoundError \<Rightarrow> Inr None
         | Inl ValueError \<Rightarrow> Inr None
         | Inl e \<Rightarrow> Inl e)"

subsection \<open>Waveform shapes\<close>

definition create_triangular_wave :: "npfloat list \<Rightarrow> error + npfloat list" where
  "create_triangular_wave sine_wave =
     (case np_max (map np_abs sine_wave) of
        Inl e \<Rightarrow> Inl e
      | Inr peak \<Rightarrow>
          Inr (map (\<lambda>x. let normalized_sine = np_div x peak
                        in np_sub
                             (np_mul (Num 2)
                                (np_abs (np_mul (Num 2)
                                   (np_sub normalized_sine
                                      (np_floor (np_add normalized_sine (Num 0.5)))))))
                             (Num 1))
                 sine_wave))"

definition create_square_wave :: "npfloat list \<Rightarrow> error + npfloat list" where
  "create_square_wave sine_wave =
     (case np_max (map np_abs sine_wave) of
        Inl e \<Rightarrow> Inl e
      | Inr peak \<Rightarrow>
          Inr (map (\<lambda>x. np_mul (Num 0.5) (np_add (Num 1) (np_sign (np_div x peak))))
                 sine_wave))"

definition convert_wave :: "npfloat list \<Rightarrow> string \<Rightarrow> error + npfloat list" where
  "convert_wave sine_wave wave_type =
     (if wave_type = ''triangular'' then create_triangular_wave sine_wave
      else if wave_type = ''square'' then create_square_wave sine_wave
      else Inl ValueError)"

subsection \<open>Normalisation\<close>




text \<open>The peak of a signal: the largest absolute sample.\<close>

definition peak :: "npfloat list \<Rightarrow> error + npfloat" where
  "peak xs = np_max (map np_abs xs)"

subsection \<open>The ADSR envelope\<close>

text \<open>
  \<open>a[j] = v\<close> on a NumPy array of length \<open>n\<close>: an index from \<open>-n\<close> up to \<open>n - 1\<close> is
  accepted, a negative one counting from the end; any other raises \<open>IndexError\<close>.
\<close>

definition np_setitem :: "npfloat list \<Rightarrow> int \<Rightarrow> npfloat \<Rightarrow> error + npfloat list" where
  "np_setitem a j v =
     (let n = int (length a)
      in if - n \<le> j \<and> j < n then Inr (a[nat (if j < 0 then j + n else j) := v])
         else Inl IndexError)"

text \<open>
  \<open>a[lo:hi] = v\<close>: each bound is counted from the end when negative and then clipped
  to the array; the slice is empty when the bounds cross. It never raises.
\<close>

definition slice_bound :: "nat \<Rightarrow> int \<Rightarrow> nat" where
  "slice_bound n j = nat (min (int n) (max 0 (if j < 0 then j + int n else j)))"

definition np_setslice :: "npfloat list \<Rightarrow> int \<Rightarrow> int \<Rightarrow> npfloat \<Rightarrow> npfloat list" where
  "np_setslice a lo hi v =
     (let n = length a; l = slice_bound n lo; h = slice_bound n hi
      in map (\<lambda>k. if l \<le> k \<and> k < h then v else a ! k) [0..<n])"

text \<open>
  \<open>for i in range(count): envelope[base + i] = value(i)\<close>, the shape of the three
  loops of \<open>perform_adsr_mods\<close>; the list is \<open>range(count)\<close>.
\<close>

fun assign_loop :: "int \<Rightarrow> (int \<Rightarrow> real) \<Rightarrow> int list \<Rightarrow> npfloat list \<Rightarrow> error + npfloat list" where
  "assign_loop base val [] envelope = Inr envelope"
| "assign_loop base val (i # is) envelope =
     (case np_setitem envelope (base + i) (Num (val i)) of
        Inl e \<Rightarrow> Inl e
      | Inr envelope' \<Rightarrow> assign_loop base val is envelope')"

definition py_range :: "int \<Rightarrow> int list" where
  "py_range n = [0..n - 1]"

text \<open>
  The gain curve that \<open>perform_adsr_mods\<close> builds for a signal of \<open>n\<close> samples. The
  times and the sustain level are finite numbers.
\<close>

definition adsr_envelope :: "nat \<Rightarrow> real \<Rightarrow> real \<Rightarrow> real \<Rightarrow> real \<Rightarrow> error + npfloat list" where
  "adsr_envelope n attack_time decay_time sustain_level release_time =
     (let sample_rate = real SAMPLING_RATE;
          attack_samples = trunc (attack_time * sample_rate);
          decay_samples = trunc (decay_time * sample_rate);
          sustain_samples =
            trunc (real n / sample_rate - (attack_time + decay_time + release_time));
          release_samples = trunc (release_time * sample_rate);
          envelope = replicate n (Num 0)
      in case assign_loop 0 (\<lambda>i. real_of_int i / real_of_int attack_samples)
                (py_range attack_samples) envelope of
           Inl e \<Rightarrow> Inl e
         | Inr envelope1 \<Rightarrow>
             (case assign_loop attack_samples
                     (\<lambda>i. 1 - (real_of_int i / real_of_int decay_samples) * (1 - sustain_level))
                     (py_range decay_samples) envelope1 of
                Inl e \<Rightarrow> Inl e
              | Inr envelope2 \<Rightarrow>
                  assign_loop (attack_samples + decay_samples + sustain_samples)
                    (\<lambda>i. sustain_level * (1 - (real_of_int i / real_of_int release_samples)))
                    (py_range release_samples)
                    (np_setslice envelope2 (attack_samples + decay_samples)
                       (attack_samples + decay_samples + sustain_samples)
                       (Num sustain_level))))"

definition perform_adsr_mods ::
  "SoundWave \<Rightarrow> real \<Rightarrow> real \<Rightarrow> real \<Rightarrow> real \<Rightarrow> error + SoundWave" where
  "perform_adsr_mods wave attack_time decay_time sustain_level release_time =
     (case adsr_envelope (length (sound_wave wave)) attack_time decay_time sustain_level
             release_time of
        Inl e \<Rightarrow> Inl e
      | Inr envelope \<Rightarrow>
          Inr (wave\<lparr>sound_wave := map2 np_mul (sound_wave wave) envelope\<rparr>))"

subsection \<open>Text: whitespace, tokens and float literals\<close>

text \<open>
  Strings are ASCII. The whitespace of \<open>\s\<close>, \<open>\S\<close> and \<open>str.split\<close>: tab, line feed,
  vertical tab, form feed, carriage return, the four separators 28 to 31, and space.
\<close>

definition is_space :: "char \<Rightarrow> bool" where
  "is_space c = (let n = (of_char c :: nat) in (9 \<le> n \<and> n \<le> 13) \<or> (28 \<le> n \<and> n \<le> 32))"

text \<open>
  The first alternative of the pattern, \<open>\(.*?\)\<close>, tried on the text after an
  opening parenthesis: the shortest run of characters other than line feed that a
  closing parenthesis follows. The result is the run and the text after the closing
  parenthesis.
\<close>

definition group_match :: "string \<Rightarrow> (string \<times> string) option" where
  "group_match cs =
     (case dropWhile (\<lambda>x. x \<noteq> CHR '')'' \<and> x \<noteq> CHR 0x0A) cs of
        [] \<Rightarrow> None
      | x # rest \<Rightarrow>
          if x = CHR '')''
          then Some (takeWhile (\<lambda>x. x \<noteq> CHR '')'' \<and> x \<noteq> CHR 0x0A) cs, rest)
          else None)"

text \<open>
  \<open>re.findall(r'\(.*?\)|\S+', text)\<close>: at each position the group alternative is tried
  first, then a run of characters that are not whitespace; where neither matches, the
  scan moves on by one character.
\<close>

function findall_tokens :: "string \<Rightarrow> string list" where
  "findall_tokens [] = []"
| "findall_tokens (c # cs) =
     (case (if c = CHR ''('' then group_match cs else None) of
        Some (body, rest) \<Rightarrow> (c # body @ '')'') # findall_tokens rest
      | None \<Rightarrow>
          if is_space c then findall_tokens cs
          else (c # takeWhile (\<lambda>x. \<not> is_space x) cs)
               # findall_tokens (dropWhile (\<lambda>x. \<not> is_space x) cs))"
  by pat_completeness auto
termination
  apply (relation "measure length")
     apply simp
    apply (auto simp: group_match_def less_Suc_eq_le length_dropWhile_le
                split: list.splits if_splits)
  apply (metis Suc_leD length_Cons length_dropWhile_le)
  done

text \<open>\<open>text.split()\<close>: the runs of characters that are not whitespace.\<close>

function py_split :: "string \<Rightarrow> string list" where
  "py_split [] = []"
| "py_split (c # cs) =
     (if is_space c then py_split cs
      else (c # takeWhile (\<lambda>x. \<not> is_space x) cs)
           # py_split (dropWhile (\<lambda>x. \<not> is_space x) cs))"
  by pat_completeness auto
termination
  by (relation "measure length") (auto simp: less_Suc_eq_le length_dropWhile_le)

text \<open>
  \<open>float(text)\<close> on a string. Whitespace around the literal is dropped; a sign may
  lead; \<open>inf\<close>, \<open>infinity\<close> and \<open>nan\<close> are accepted in any case; a number is digits
  with an optional point and an optional exponent, and an underscore may stand between
  two digits. Anything else raises \<open>ValueError\<close>. \<open>float_number\<close> is the real
  number that the literal denotes, and \<open>float\<close> returns the double nearest to it.
\<close>

definition is_digit :: "char \<Rightarrow> bool" where
  "is_digit c = (let n = (of_char c :: nat) in 48 \<le> n \<and> n \<le> 57)"

definition digit_val :: "char \<Rightarrow> nat" where
  "digit_val c = of_char c - 48"

definition to_lower :: "char \<Rightarrow> char" where
  "to_lower c =
     (let n = (of_char c :: nat) in if 65 \<le> n \<and> n \<le> 90 then char_of (n + 32) else c)"

definition py_strip :: "string \<Rightarrow> string" where
  "py_strip s = rev (dropWhile is_space (rev (dropWhile is_space s)))"

text \<open>
  The longest prefix \<open>digit (["_"] digit)*\<close>, as the values of its digits, and the
  text after it. The flag says that a digit has just been read, so that an underscore
  may follow.
\<close>

fun digitpart :: "bool \<Rightarrow> string \<Rightarrow> nat list \<times> string" where
  "digitpart after_digit [] = ([], [])"
| "digitpart after_digit (c # cs) =
     (if is_digit c then (case digitpart True cs of (ds, rest) \<Rightarrow> (digit_val c # ds, rest))
      else if after_digit \<and> c = CHR ''_'' \<and> cs \<noteq> [] \<and> is_digit (hd cs)
      then digitpart False cs
      else ([], c # cs))"

definition digits_value :: "nat list \<Rightarrow> nat" where
  "digits_value ds = foldl (\<lambda>a d. 10 * a + d) 0 ds"

definition take_sign :: "string \<Rightarrow> bool \<times> string" where
  "take_sign s =
     (case s of
        [] \<Rightarrow> (False, s)
      | c # cs \<Rightarrow>
          if c = CHR ''-'' then (True, cs) else if c = CHR ''+'' then (False, cs) else (False, s))"

definition float_number :: "string \<Rightarrow> real option" where
  "float_number s =
     (case digitpart False s of
        (ip, r1) \<Rightarrow>
          (case (case r1 of
                   [] \<Rightarrow> ([], r1)
                 | c # cs \<Rightarrow> if c = CHR ''.'' then digitpart False cs else ([], r1)) of
             (fp, r2) \<Rightarrow>
               if ip = [] \<and> fp = [] then None
               else
                 (let mantissa =
                        real (digits_value ip) + real (digits_value fp) / 10 ^ length fp
                  in case r2 of
                       [] \<Rightarrow> Some mantissa
                     | c # cs \<Rightarrow>
                         if c = CHR ''e'' \<or> c = CHR ''E''
                         then (case take_sign cs of
                                 (negative, r3) \<Rightarrow>
                                   (case digitpart False r3 of
                                      (ep, r4) \<Rightarrow>
                                        if ep = [] \<or> r4 \<noteq> [] then None
                                        else if negative
                                        then Some (mantissa / 10 ^ digits_value ep)
                                        else Some (mantissa * 10 ^ digits_value ep)))
                         else None)))"

definition py_float :: "string \<Rightarrow> error + npfloat" where
  "py_float text =
     (case take_sign (py_strip text) of
        (negative, s) \<Rightarrow>
          if map to_lower s = ''inf'' \<or> map to_lower s = ''infinity''
          then Inr (if negative then NInf else PInf)
          else if map to_lower s = ''nan'' then Inr NaN
          else (case float_number s of
                  None \<Rightarrow> Inl ValueError
                | Some x \<Rightarrow> Inr (Num (round_double (if negative then - x else x)))))"

subsection \<open>Chords and melodies\<close>

text \<open>\<open>np.zeros(n)\<close>: a negative length raises \<open>ValueError\<close>.\<close>

definition np_zeros :: "int \<Rightarrow> error + npfloat list" where
  "np_zeros n = (if n < 0 then Inl ValueError else Inr (replicate (nat n) (Num 0)))"

text \<open>
  \<open>a += b\<close> on arrays: elementwise when the lengths agree, \<open>b\<close> of one element is
  added to every element, any other pair of lengths raises \<open>ValueError\<close>.
\<close>

definition np_iadd :: "npfloat list \<Rightarrow> npfloat list \<Rightarrow> error + npfloat list" where
  "np_iadd a b =
     (if length b = length a then Inr (map2 np_add a b)
      else if length b = 1 then Inr (map (\<lambda>x. np_add x (hd b)) a)
      else Inl ValueError)"

fun group_loop_at ::
  "nat \<Rightarrow> string list \<Rightarrow> npfloat \<Rightarrow> npfloat list \<Rightarrow> error + npfloat list" where
  "group_loop_at rate [] duration group_wave = Inr group_wave"
| "group_loop_at rate (note # notes) duration group_wave =
     (case create_sound_wave_at rate note (Some duration) of
        Inl e \<Rightarrow> Inl e
      | Inr w \<Rightarrow>
          (case np_iadd group_wave (sound_wave w) of
             Inl e \<Rightarrow> Inl e
           | Inr group_wave' \<Rightarrow> group_loop_at rate notes duration group_wave'))"

abbreviation group_loop ::
  "string list \<Rightarrow> npfloat \<Rightarrow> npfloat list \<Rightarrow> error + npfloat list" where
  "group_loop \<equiv> group_loop_at SAMPLING_RATE"

text \<open>
  The buffer has \<open>int(SAMPLING_RATE * duration)\<close> zeros, the product rounded as in
  \<open>set_custom_common_timeline\<close>.
\<close>

definition generate_group_wave_at ::
  "nat \<Rightarrow> string list \<Rightarrow> npfloat \<Rightarrow> error + npfloat list" where
  "generate_group_wave_at rate notes duration =
     (case py_int (py_float_mul (Num (real rate)) duration) of
        Inl e \<Rightarrow> Inl e
      | Inr n \<Rightarrow>
          (case np_zeros n of
             Inl e \<Rightarrow> Inl e
           | Inr group_wave \<Rightarrow> group_loop_at rate notes duration group_wave))"

abbreviation generate_group_wave :: "string list \<Rightarrow> npfloat \<Rightarrow> error + npfloat list" where
  "generate_group_wave \<equiv> generate_group_wave_at SAMPLING_RATE"

text \<open>\<open>np.concatenate\<close> of a list of arrays: the empty list raises \<open>ValueError\<close>.\<close>

definition np_concatenate :: "npfloat list list \<Rightarrow> error + npfloat list" where
  "np_concatenate arrays = (if arrays = [] then Inl ValueError else Inr (concat arrays))"

definition is_group :: "string \<Rightarrow> bool" where
  "is_group token = (token \<noteq> [] \<and> hd token = CHR ''('' \<and> last token = CHR '')'')"

text \<open>
  The loop of \<open>read_notes_string\<close> over the tokens from position \<open>i\<close> on. Each round
  takes the token at \<open>i\<close> and the token after it; when there is none,
  \<open>tokens[i]\<close> raises \<open>IndexError\<close>. The token after it loses its last character,
  whatever that is, and goes to \<open>float\<close>.
\<close>

fun melody_loop_at :: "nat \<Rightarrow> string list \<Rightarrow> error + npfloat list list" where
  "melody_loop_at rate [] = Inr []"
| "melody_loop_at rate [token] = Inl IndexError"
| "melody_loop_at rate (token # next_token # tokens) =
     (if is_group token
      then (let notes_in_group = py_split (butlast (tl token))
            in case py_float (butlast next_token) of
                 Inl e \<Rightarrow> Inl e
               | Inr duration \<Rightarrow>
                   (case generate_group_wave_at rate notes_in_group duration of
                      Inl e \<Rightarrow> Inl e
                    | Inr group_wave \<Rightarrow>
                        (case melody_loop_at rate tokens of
                           Inl e \<Rightarrow> Inl e
                         | Inr melody_sequence \<Rightarrow> Inr (group_wave # melody_sequence))))
      else (case py_float (butlast next_token) of
              Inl e \<Rightarrow> Inl e
            | Inr duration \<Rightarrow>
                (case create_sound_wave_at rate token (Some duration) of
                   Inl e \<Rightarrow> Inl e
                 | Inr w \<Rightarrow>
                     (case melody_loop_at rate tokens of
                        Inl e \<Rightarrow> Inl e
                      | Inr melody_sequence \<Rightarrow> Inr (sound_wave w # melody_sequence)))))"

abbreviation melody_loop :: "string list \<Rightarrow> error + npfloat list list" where
  "melody_loop \<equiv> melody_loop_at SAMPLING_RATE"

definition read_notes_string_at :: "nat \<Rightarrow> string \<Rightarrow> error + npfloat list" where
  "read_notes_string_at rate melody_str =
     (case melody_loop_at rate (findall_tokens melody_str) of
        Inl e \<Rightarrow> Inl e
      | Inr melody_sequence \<Rightarrow> np_concatenate melody_sequence)"

abbreviation read_notes_string :: "string \<Rightarrow> error + npfloat list" where
  "read_notes_string \<equiv> read_notes_string_at SAMPLING_RATE"

subsection \<open>Amplitude bounds\<close>

text \<open>Every sample of the signal is a finite number of absolute value at most \<open>B\<close>.\<close>

definition amplitude_within :: "real \<Rightarrow> npfloat list \<Rightarrow> bool" where
  "amplitude_within B xs = list_all (\<lambda>x. case x of Num r \<Rightarrow> \<bar>r\<bar> \<le> B | _ \<Rightarrow> False) xs"

section \<open>The note table\<close>

lemma NOTES_positive_except_rest:
  "list_all (\<lambda>(name, f). name \<noteq> ''0'' \<longrightarrow> 0 < f) NOTES"
  unfolding NOTES_def by simp

text \<open>
  C6, at the rest: the table holds the name \<open>0\<close> with frequency 0, which is not
  strictly positive.
\<close>

theorem C6_rest_frequency_zero:
  "frequency ''0'' = Inr 0 \<and> \<not> (0::real) < 0"
  by (simp add: frequency_def NOTES_def)

text \<open>
  C6, amended: every name of the table other than the rest \<open>0\<close> has a strictly
  positive frequency, the rest has frequency 0, and \<open>a4\<close> has frequency 440.
\<close>

theorem C6_frequency_positive:
  "(\<forall>name f. frequency name = Inr f \<and> name \<noteq> ''0'' \<longrightarrow> 0 < f)
   \<and> frequency ''0'' = Inr 0 \<and> frequency ''a4'' = Inr 440"
proof (intro conjI allI impI)
  fix name f
  assume h: "frequency name = Inr f \<and> name \<noteq> ''0''"
  then have "map_of NOTES name = Some f"
    by (auto simp: frequency_def split: option.splits)
  then have "(name, f) \<in> set NOTES"
    by (rule map_of_SomeD)
  with NOTES_positive_except_rest have "name \<noteq> ''0'' \<longrightarrow> 0 < f"
    by (auto simp: list_all_iff)
  with h show "0 < f" by simp
next
  show "frequency ''0'' = Inr 0"
    by (simp add: frequency_def NOTES_def)
next
  show "frequency ''a4'' = Inr 440"
    by (simp add: frequency_def NOTES_def)
qed

theorem C6_frequency_positive_witness:
  "frequency ''a#2'' = Inr 116.5409 \<and> (0::real) < 116.5409"
proof -
  have e: "frequency ''a#2'' = Inr 116.5409"
    by (simp add: frequency_def NOTES_def)
  from C6_frequency_positive have "frequency ''a#2'' = Inr 116.5409 \<and> ''a#2'' \<noteq> ''0'' \<longrightarrow> (0::real) < 116.5409"
    by blast
  with e show ?thesis by simp
qed
section \<open>Rounding to a double\<close>

lemma round_half_even_nearest:
  "\<bar>of_int (round_half_even r) - r\<bar> \<le> \<bar>of_int j - r\<bar>"
proof -
  have a: "\<bar>of_int (round_half_even r) - r\<bar> \<le> 1 / 2"
    unfolding round_half_even_def Let_def by (auto simp: abs_if) linarith+
  show ?thesis
  proof (cases "j \<le> \<lfloor>r\<rfloor>")
    case True
    then have "of_int j \<le> (of_int \<lfloor>r\<rfloor> :: real)" by simp
    then show ?thesis
      unfolding round_half_even_def Let_def by (auto simp: abs_if) linarith+
  next
    case False
    then have "\<lfloor>r\<rfloor> + 1 \<le> j" by simp
    then have "(of_int \<lfloor>r\<rfloor> :: real) + 1 \<le> of_int j" by (metis of_int_1 of_int_add of_int_le_iff)
    then show ?thesis
      unfolding round_half_even_def Let_def by (auto simp: abs_if) linarith+
  qed
qed

lemma round_half_even_half: "\<bar>of_int (round_half_even r) - r\<bar> \<le> 1 / 2"
  unfolding round_half_even_def Let_def by (auto simp: abs_if) linarith+

lemma ulp_pos: "0 < ulp x" by (simp add: ulp_def)

lemma powr_powi: "(2::real) powr (real_of_int e) = 2 powi e"
  by (simp add: powr_real_of_int')

lemma powr_powi1: "(2::real) powr (real_of_int e + 1) = 2 powi (e + 1)"
  using powr_powi [of "e + 1"] by simp

lemma log2_bounds:
  assumes "0 < x"
  shows "2 powi \<lfloor>log 2 x\<rfloor> \<le> x" and "x < 2 powi (\<lfloor>log 2 x\<rfloor> + 1)"
proof -
  have "2 powr (of_int \<lfloor>log 2 x\<rfloor>) \<le> x \<and> x < 2 powr (of_int \<lfloor>log 2 x\<rfloor> + 1)"
    using floor_log_eq_powr_iff [of x 2 "\<lfloor>log 2 x\<rfloor>"] assms by simp
  then show "2 powi \<lfloor>log 2 x\<rfloor> \<le> x" and "x < 2 powi (\<lfloor>log 2 x\<rfloor> + 1)"
    by (simp_all only: powr_powi powr_powi1)
qed

lemma floor_log2_eq:
  assumes "2 powi e \<le> x" and "x < 2 powi (e + 1)"
  shows "\<lfloor>log 2 x\<rfloor> = e"
proof -
  have "0 < (2::real) powi e" by simp
  with assms(1) have "0 < x" by linarith
  then have "(\<lfloor>log 2 x\<rfloor> = e) = (2 powr (of_int e) \<le> x \<and> x < 2 powr (of_int e + 1))"
    using floor_log_eq_powr_iff [of x 2 e] by simp
  with assms show ?thesis by (simp only: powr_powi powr_powi1)
qed

text \<open>The rounded value is nearest among the multiples of the unit.\<close>

lemma round_double_nearest:
  "\<bar>round_double x - x\<bar> \<le> \<bar>ulp x * of_int j - x\<bar>"
proof (cases "x = 0")
  case True
  then show ?thesis by (simp add: round_double_def)
next
  case False
  have u: "0 < ulp x" by (rule ulp_pos)
  have "\<bar>of_int (round_half_even (x / ulp x)) - x / ulp x\<bar> \<le> \<bar>of_int j - x / ulp x\<bar>"
    by (rule round_half_even_nearest)
  then have "ulp x * \<bar>of_int (round_half_even (x / ulp x)) - x / ulp x\<bar>
               \<le> ulp x * \<bar>of_int j - x / ulp x\<bar>"
    using u by simp
  then have "\<bar>ulp x * (of_int (round_half_even (x / ulp x)) - x / ulp x)\<bar>
               \<le> \<bar>ulp x * (of_int j - x / ulp x)\<bar>"
    using u by (simp add: abs_mult)
  then show ?thesis
    using u False by (simp add: round_double_def right_diff_distrib)
qed

lemma round_double_error: "\<bar>round_double x - x\<bar> \<le> ulp x / 2"
proof (cases "x = 0")
  case True
  then show ?thesis using ulp_pos [of 0] by (simp add: round_double_def)
next
  case False
  have u: "0 < ulp x" by (rule ulp_pos)
  have "\<bar>of_int (round_half_even (x / ulp x)) - x / ulp x\<bar> \<le> 1 / 2"
    by (rule round_half_even_half)
  then have "ulp x * \<bar>of_int (round_half_even (x / ulp x)) - x / ulp x\<bar> \<le> ulp x * (1 / 2)"
    using u by simp
  then have "\<bar>ulp x * (of_int (round_half_even (x / ulp x)) - x / ulp x)\<bar> \<le> ulp x / 2"
    using u by (simp add: abs_mult)
  then show ?thesis
    using u False by (simp add: round_double_def right_diff_distrib)
qed

lemma ulp_le: "x \<noteq> 0 \<Longrightarrow> ulp x \<le> \<bar>x\<bar> / 2 ^ 52"
proof -
  assume "x \<noteq> 0"
  then have p: "0 < \<bar>x\<bar>" by simp
  have "ulp x = 2 powi \<lfloor>log 2 \<bar>x\<bar>\<rfloor> / 2 ^ 52"
    by (simp add: ulp_def power_int_diff)
  also have "\<dots> \<le> \<bar>x\<bar> / 2 ^ 52"
    using log2_bounds(1) [OF p] by (simp add: divide_right_mono)
  finally show ?thesis .
qed

text \<open>Below \<open>2^53\<close> every integer is a multiple of the unit, so it is a double.\<close>

lemma int_multiple_of_ulp:
  assumes "x \<noteq> 0" and "\<bar>x\<bar> < 2 ^ 53"
  shows "\<exists>j. ulp x * of_int j = of_int N"
proof -
  have p: "0 < \<bar>x\<bar>" using assms by simp
  have "\<lfloor>log 2 \<bar>x\<bar>\<rfloor> < 53"
  proof (rule ccontr)
    assume "\<not> \<lfloor>log 2 \<bar>x\<bar>\<rfloor> < 53"
    then have "53 \<le> \<lfloor>log 2 \<bar>x\<bar>\<rfloor>" by simp
    then have "(2::real) powi 53 \<le> 2 powi \<lfloor>log 2 \<bar>x\<bar>\<rfloor>"
      by (intro power_int_increasing) simp_all
    with log2_bounds(1) [OF p] have "(2::real) powi 53 \<le> \<bar>x\<bar>" by linarith
    with assms(2) show False by simp
  qed
  then have e: "0 \<le> 52 - \<lfloor>log 2 \<bar>x\<bar>\<rfloor>" by simp
  define m where "m = nat (52 - \<lfloor>log 2 \<bar>x\<bar>\<rfloor>)"
  have "ulp x = 2 powi (- int m)" using e by (simp add: ulp_def m_def)
  then have u: "ulp x = 1 / 2 ^ m" by (simp add: power_int_minus_divide)
  have "ulp x * of_int (N * 2 ^ m) = of_int N" by (simp add: u)
  then show ?thesis by blast
qed

lemma round_double_between:
  assumes "0 < x" and "x < 2 ^ 53"
  shows "of_int \<lfloor>x\<rfloor> \<le> round_double x" and "round_double x \<le> of_int \<lfloor>x\<rfloor> + 1"
proof -
  have nz: "x \<noteq> 0" and ab: "\<bar>x\<bar> < 2 ^ 53" using assms by simp_all
  obtain j where j: "ulp x * of_int j = of_int \<lfloor>x\<rfloor>"
    using int_multiple_of_ulp [OF nz ab] by blast
  obtain k where k: "ulp x * of_int k = of_int (\<lfloor>x\<rfloor> + 1)"
    using int_multiple_of_ulp [OF nz ab] by blast
  from round_double_nearest [of x j] j have "\<bar>round_double x - x\<bar> \<le> \<bar>of_int \<lfloor>x\<rfloor> - x\<bar>" by simp
  then show "of_int \<lfloor>x\<rfloor> \<le> round_double x" by linarith
  from round_double_nearest [of x k] k have "\<bar>round_double x - x\<bar> \<le> \<bar>of_int (\<lfloor>x\<rfloor> + 1) - x\<bar>" by simp
  then show "round_double x \<le> of_int \<lfloor>x\<rfloor> + 1" by (simp add: abs_if split: if_splits) linarith+
qed

lemma round_double_of_nat:
  assumes "n < 2 ^ 53"
  shows "round_double (real n) = real n"
proof (cases "n = 0")
  case True
  then show ?thesis by (simp add: round_double_def)
next
  case False
  then have nz: "real n \<noteq> 0" by simp
  have "real n < real (2 ^ 53)" using assms by (simp only: of_nat_less_iff)
  then have ab: "\<bar>real n\<bar> < 2 ^ 53" by simp
  obtain j where j: "ulp (real n) * of_int j = of_int (int n)"
    using int_multiple_of_ulp [OF nz ab] by blast
  from round_double_nearest [of "real n" j] j show ?thesis by simp
qed

lemma round_double_nonneg: "0 \<le> x \<Longrightarrow> 0 \<le> round_double x"
proof -
  assume "0 \<le> x"
  have "0 \<le> x / ulp x" using \<open>0 \<le> x\<close> ulp_pos [of x] by simp
  then have "0 \<le> \<lfloor>x / ulp x\<rfloor>" by simp
  then have "0 \<le> round_half_even (x / ulp x)"
    by (simp add: round_half_even_def Let_def)
  then show ?thesis using ulp_pos [of x] by (simp add: round_double_def)
qed

lemma round_double_eval:
  assumes "2 powi e \<le> \<bar>x\<bar>" and "\<bar>x\<bar> < 2 powi (e + 1)"
  shows "round_double x = 2 powi (e - 52) * of_int (round_half_even (x / 2 powi (e - 52)))"
proof -
  have "0 < (2::real) powi e" by simp
  with assms(1) have "0 < \<bar>x\<bar>" by linarith
  then have "x \<noteq> 0" by simp
  moreover have "ulp x = 2 powi (e - 52)"
    by (simp add: ulp_def floor_log2_eq [OF assms])
  ultimately show ?thesis by (simp add: round_double_def)
qed



lemma round_double_rel_error:
  assumes "0 < x"
  shows "round_double x \<le> x * (1 + 1 / 2 ^ 53)"
proof -
  have "ulp x \<le> \<bar>x\<bar> / 2 ^ 52" using assms by (intro ulp_le) simp
  then have "ulp x / 2 \<le> x / 2 ^ 53" using assms by simp
  with round_double_error [of x] have "round_double x - x \<le> x / 2 ^ 53" by linarith
  then show ?thesis by (simp add: algebra_simps)
qed

lemma floor_round_double_cases:
  assumes "0 \<le> x" and "x < 2 ^ 53"
  shows "\<lfloor>round_double x\<rfloor> = \<lfloor>x\<rfloor> \<or> \<lfloor>round_double x\<rfloor> = \<lfloor>x\<rfloor> + 1"
proof (cases "x = 0")
  case True
  then show ?thesis by (simp add: round_double_def)
next
  case False
  with assms have p: "0 < x" by simp
  from round_double_between [OF p assms(2)]
  have "\<lfloor>x\<rfloor> \<le> \<lfloor>round_double x\<rfloor>" and "\<lfloor>round_double x\<rfloor> \<le> \<lfloor>x\<rfloor> + 1"
    by (simp_all add: le_floor_iff floor_le_iff)
  then show ?thesis by linarith
qed

lemma floor_round_double_same:
  assumes "0 < x" and "x < 2 ^ 53" and "x * (1 + 1 / 2 ^ 53) < of_int \<lfloor>x\<rfloor> + 1"
  shows "\<lfloor>round_double x\<rfloor> = \<lfloor>x\<rfloor>"
proof -
  from round_double_between(1) [OF assms(1,2)]
  have a: "of_int \<lfloor>x\<rfloor> \<le> round_double x" .
  from round_double_rel_error [OF assms(1)] assms(3)
  have b: "round_double x < of_int \<lfloor>x\<rfloor> + 1" by linarith
  from a b show ?thesis by (simp add: floor_eq_iff)
qed

lemma round_double_003: "round_double (3 / 100) = 1080863910568919 / 2 ^ 55"
proof -
  have "round_double (3 / 100) = 2 powi (- 6 - 52) * of_int (round_half_even ((3 / 100) / 2 powi (- 6 - 52)))"
    by (rule round_double_eval) (simp_all add: power_int_minus_divide)
  also have "\<dots> = 1080863910568919 / 2 ^ 55"
    by (simp add: power_int_minus_divide round_half_even_def Let_def)
  finally show ?thesis .
qed

lemma round_double_003_rate: "round_double (44100 * (1080863910568919 / 2 ^ 55)) = 1323"
proof -
  have "round_double (44100 * (1080863910568919 / 2 ^ 55)) =
          2 powi (10 - 52) * of_int (round_half_even ((44100 * (1080863910568919 / 2 ^ 55)) / 2 powi (10 - 52)))"
    by (rule round_double_eval) (simp_all add: power_int_minus_divide)
  also have "\<dots> = 1323"
    by (simp add: power_int_minus_divide round_half_even_def Let_def)
  finally show ?thesis .
qed

lemma round_double_035: "round_double (35 / 100) = 3152519739159347 / 2 ^ 53"
proof -
  have "round_double (35 / 100) = 2 powi (- 2 - 52) * of_int (round_half_even ((35 / 100) / 2 powi (- 2 - 52)))"
    by (rule round_double_eval) (simp_all add: power_int_minus_divide)
  also have "\<dots> = 3152519739159347 / 2 ^ 53"
    by (simp add: power_int_minus_divide round_half_even_def Let_def)
  finally show ?thesis .
qed

lemma round_double_035_rate: "\<lfloor>round_double (44100 * (3152519739159347 / 2 ^ 53))\<rfloor> = 15434"
proof -
  have "round_double (44100 * (3152519739159347 / 2 ^ 53)) =
          2 powi (13 - 52) * of_int (round_half_even ((44100 * (3152519739159347 / 2 ^ 53)) / 2 powi (13 - 52)))"
    by (rule round_double_eval) (simp_all add: power_int_minus_divide)
  also have "\<lfloor>\<dots>\<rfloor> = 15434"
    by (simp add: power_int_minus_divide round_half_even_def Let_def)
  finally show ?thesis .
qed


section \<open>The explicit timeline\<close>

lemma linspace_points_open:
  "linspace_points (Num d) n False = map (\<lambda>k. Num (real k * (d / real n))) [0..<n]"
  by (cases "n = 0") (simp_all add: linspace_points_def)

lemma set_custom_common_timeline_at_Num:
  "0 \<le> d \<Longrightarrow> set_custom_common_timeline_at rate (Num d) =
     Inr (map (\<lambda>k. Num (real k * (d / real (nat \<lfloor>round_double (real rate * d)\<rfloor>))))
            [0..<nat \<lfloor>round_double (real rate * d)\<rfloor>])"
proof -
  assume d: "0 \<le> d"
  then have "0 \<le> real rate * d" by simp
  then have p: "0 \<le> round_double (real rate * d)" by (rule round_double_nonneg)
  then have t: "trunc (round_double (real rate * d)) = \<lfloor>round_double (real rate * d)\<rfloor>"
    by (simp add: trunc_def)
  have "0 \<le> \<lfloor>round_double (real rate * d)\<rfloor>" using p by simp
  then show ?thesis
    by (simp add: set_custom_common_timeline_at_def py_float_mul_def t np_linspace_def
        linspace_points_open)
qed

text \<open>
  C8: for a positive duration \<open>d\<close> the explicit timeline has
  \<open>int (SAMPLING_RATE * d)\<close> points, the product being the float product: the
  exact product rounded to a double. Below \<open>2^53\<close> that count is
  \<open>floor (d * SAMPLING_RATE)\<close> or one more, and it is \<open>floor (d * SAMPLING_RATE)\<close>
  unless the exact product lies within one part in \<open>2^53\<close> below the next integer.
  Point \<open>k\<close> is \<open>k\<close> steps of \<open>d / length\<close> from 0, so the points start at 0, are
  evenly spaced and stay strictly below \<open>d\<close>; one more step after the last point lands
  on \<open>d\<close>, where the next timeline of the same duration starts. The points are
  computed in the reals.
\<close>

theorem C8_timeline:
  assumes "0 < d"
  shows "\<exists>ts. set_custom_common_timeline (Num d) = Inr ts
           \<and> length ts = nat \<lfloor>round_double (real SAMPLING_RATE * d)\<rfloor>
           \<and> (d * real SAMPLING_RATE < 2 ^ 53 \<longrightarrow>
                length ts = nat \<lfloor>d * real SAMPLING_RATE\<rfloor>
                \<or> length ts = nat \<lfloor>d * real SAMPLING_RATE\<rfloor> + 1)
           \<and> (d * real SAMPLING_RATE < 2 ^ 53
                \<and> d * real SAMPLING_RATE * (1 + 1 / 2 ^ 53)
                    < of_int \<lfloor>d * real SAMPLING_RATE\<rfloor> + 1 \<longrightarrow>
                length ts = nat \<lfloor>d * real SAMPLING_RATE\<rfloor>)
           \<and> (\<forall>k < length ts. ts ! k = Num (real k * (d / real (length ts)))
                  \<and> 0 \<le> real k * (d / real (length ts))
                  \<and> real k * (d / real (length ts)) < d)
           \<and> (0 < length ts \<longrightarrow> ts ! 0 = Num 0
                  \<and> real (length ts) * (d / real (length ts)) = d)"
proof -
  define x where "x = real SAMPLING_RATE * d"
  let ?n = "nat \<lfloor>round_double x\<rfloor>"
  let ?ts = "map (\<lambda>k. Num (real k * (d / real ?n))) [0..<?n]"
  have xd: "d * real SAMPLING_RATE = x" by (simp add: x_def mult.commute)
  have xp: "0 < x" using assms by (simp add: x_def SAMPLING_RATE_def)
  have e: "set_custom_common_timeline (Num d) = Inr ?ts"
    unfolding x_def using assms by (simp add: set_custom_common_timeline_at_Num)
  have l: "length ?ts = ?n" by simp
  have c: "x < 2 ^ 53 \<longrightarrow> ?n = nat \<lfloor>x\<rfloor> \<or> ?n = nat \<lfloor>x\<rfloor> + 1"
  proof
    assume b: "x < 2 ^ 53"
    have f: "0 \<le> \<lfloor>x\<rfloor>" using xp by simp
    from floor_round_double_cases [OF _ b] xp
    have "\<lfloor>round_double x\<rfloor> = \<lfloor>x\<rfloor> \<or> \<lfloor>round_double x\<rfloor> = \<lfloor>x\<rfloor> + 1" by simp
    then show "?n = nat \<lfloor>x\<rfloor> \<or> ?n = nat \<lfloor>x\<rfloor> + 1"
    proof
      assume "\<lfloor>round_double x\<rfloor> = \<lfloor>x\<rfloor>"
      then show ?thesis by simp
    next
      assume "\<lfloor>round_double x\<rfloor> = \<lfloor>x\<rfloor> + 1"
      then have "?n = nat (\<lfloor>x\<rfloor> + 1)" by simp
      also have "\<dots> = nat \<lfloor>x\<rfloor> + 1" using f by (simp add: nat_add_distrib)
      finally show ?thesis by simp
    qed
  qed
  have s: "x < 2 ^ 53 \<and> x * (1 + 1 / 2 ^ 53) < of_int \<lfloor>x\<rfloor> + 1 \<longrightarrow> ?n = nat \<lfloor>x\<rfloor>"
  proof
    assume h: "x < 2 ^ 53 \<and> x * (1 + 1 / 2 ^ 53) < of_int \<lfloor>x\<rfloor> + 1"
    then have "\<lfloor>round_double x\<rfloor> = \<lfloor>x\<rfloor>"
      using xp by (intro floor_round_double_same) simp_all
    then show "?n = nat \<lfloor>x\<rfloor>" by simp
  qed
  have p: "\<forall>k < ?n. ?ts ! k = Num (real k * (d / real ?n))
             \<and> 0 \<le> real k * (d / real ?n) \<and> real k * (d / real ?n) < d"
  proof (intro allI impI conjI)
    fix k assume k: "k < ?n"
    then show "?ts ! k = Num (real k * (d / real ?n))" by simp
    from assms show "0 \<le> real k * (d / real ?n)" by simp
    have "real a / real b < 1" if "a < b" for a b :: nat
      using that by (simp add: divide_less_eq)
    with k have "real k / real ?n < 1" by blast
    then have "d * (real k / real ?n) < d * 1"
      using assms by (rule mult_strict_left_mono)
    then show "real k * (d / real ?n) < d" by (simp add: field_simps)
  qed
  have "map (\<lambda>k. Num (real k * (d / real m))) [0..<m] ! 0 = Num 0
          \<and> real m * (d / real m) = d" if "0 < m" for m :: nat
    using that by simp
  then have z: "0 < ?n \<longrightarrow> ?ts ! 0 = Num 0 \<and> real ?n * (d / real ?n) = d"
    by blast
  show ?thesis
    apply (rule exI [of _ ?ts])
    unfolding xd l x_def [symmetric]
    using e c s p z by blast
qed

text \<open>
  C8, at the double nearest to 0.03: the exact product with the rate is just below
  1323, so its floor is 1322; the float product rounds to 1323 and the timeline has
  1323 points. And at the double nearest to 0.35: the float product is just below
  15435 and the timeline has 15434 points, while \<open>floor (0.35 * 44100)\<close> is 15435.
\<close>

theorem C8_count_not_floor:
  "(\<exists>ts. set_custom_common_timeline (Num (round_double 0.03)) = Inr ts \<and> length ts = 1323)
   \<and> nat \<lfloor>round_double 0.03 * real SAMPLING_RATE\<rfloor> = 1322
   \<and> (\<exists>ts. set_custom_common_timeline (Num (round_double 0.35)) = Inr ts \<and> length ts = 15434)
   \<and> nat \<lfloor>0.35 * real SAMPLING_RATE\<rfloor> = 15435"
proof -
  have d3: "round_double 0.03 = 1080863910568919 / 2 ^ 55"
    using round_double_003 by simp
  have d35: "round_double 0.35 = 3152519739159347 / 2 ^ 53"
    using round_double_035 by simp
  have p3: "(0::real) \<le> 1080863910568919 / 2 ^ 55" by simp
  have p35: "(0::real) \<le> 3152519739159347 / 2 ^ 53" by simp
  have n3: "nat \<lfloor>round_double (real 44100 * (1080863910568919 / 2 ^ 55))\<rfloor> = 1323"
    using round_double_003_rate by simp
  have n35: "nat \<lfloor>round_double (real 44100 * (3152519739159347 / 2 ^ 53))\<rfloor> = 15434"
    using round_double_035_rate by simp
  have a: "\<exists>ts. set_custom_common_timeline (Num (round_double 0.03)) = Inr ts
                \<and> length ts = 1323"
    unfolding d3 SAMPLING_RATE_def set_custom_common_timeline_at_Num [OF p3] n3 by simp
  have b: "nat \<lfloor>round_double 0.03 * real SAMPLING_RATE\<rfloor> = 1322"
    unfolding d3 by (simp add: SAMPLING_RATE_def)
  have c: "\<exists>ts. set_custom_common_timeline (Num (round_double 0.35)) = Inr ts
                \<and> length ts = 15434"
    unfolding d35 SAMPLING_RATE_def set_custom_common_timeline_at_Num [OF p35] n35 by simp
  have d: "nat \<lfloor>0.35 * real SAMPLING_RATE\<rfloor> = 15435"
    by (simp add: SAMPLING_RATE_def)
  from a b c d show ?thesis by blast
qed

theorem C8_timeline_witness:
  "(0::real) < 1 / 8
   \<and> (\<exists>ts. set_custom_common_timeline (Num (1 / 8)) = Inr ts \<and> length ts = 5512
         \<and> ts ! 0 = Num 0 \<and> ts ! 1 = Num (1 / 44096))"
proof -
  have h: "(0::real) < 1 / 8" by simp
  have x: "real SAMPLING_RATE * (1 / 8) = 11025 / 2" by (simp add: SAMPLING_RATE_def)
  have "\<lfloor>round_double (11025 / 2)\<rfloor> = \<lfloor>11025 / 2 :: real\<rfloor>"
    by (rule floor_round_double_same) simp_all
  then have n: "nat \<lfloor>round_double (real SAMPLING_RATE * (1 / 8))\<rfloor> = 5512"
    unfolding x by simp
  from C8_timeline [OF h] obtain ts where
    e: "set_custom_common_timeline (Num (1 / 8)) = Inr ts"
    and l: "length ts = nat \<lfloor>round_double (real SAMPLING_RATE * (1 / 8))\<rfloor>"
    and p: "\<forall>k < length ts. ts ! k = Num (real k * ((1 / 8) / real (length ts)))
              \<and> 0 \<le> real k * ((1 / 8) / real (length ts))
              \<and> real k * ((1 / 8) / real (length ts)) < 1 / 8"
    by blast
  from l n have l': "length ts = 5512" by simp
  from p l' have "ts ! 0 = Num 0" and "ts ! 1 = Num (1 / 44096)" by simp_all
  with e l' h show ?thesis by blast
qed

section \<open>Reading a wave back\<close>

lemma frequency_only_KeyError: "frequency name = Inl e \<Longrightarrow> e = KeyError"
  by (auto simp: frequency_def split: option.splits)

text \<open>
  C10: \<open>read_wave_from_txt\<close> does not depend on the files: its result is the same
  under any two file systems, it is the result of \<open>create_sound_wave\<close> on the file name
  without its last four characters and with no duration, and when that name is in the
  note table it is the sine of the note over the default timeline.
\<close>

theorem C10_read_wave_from_txt:
  "read_wave_from_txt fs filename = read_wave_from_txt fs' filename
   \<and> read_wave_from_txt fs filename =
       (case create_sound_wave (take (length filename - 4) filename) None of
          Inl e \<Rightarrow> Inl e
        | Inr w \<Rightarrow> Inr (Some w))
   \<and> (\<forall>f. frequency (take (length filename - 4) filename) = Inr f \<longrightarrow>
          read_wave_from_txt fs filename =
            Inr (Some \<lparr>note_str = take (length filename - 4) filename,
                       sound_wave = get_normed_sin common_timeline f\<rparr>))"
proof (intro conjI allI impI)
  show "read_wave_from_txt fs filename = read_wave_from_txt fs' filename"
    by (simp add: read_wave_from_txt_def)
next
  show "read_wave_from_txt fs filename =
       (case create_sound_wave (take (length filename - 4) filename) None of
          Inl e \<Rightarrow> Inl e
        | Inr w \<Rightarrow> Inr (Some w))"
  proof (cases "frequency (take (length filename - 4) filename)")
    case (Inl e)
    then have "e = KeyError" by (rule frequency_only_KeyError)
    with Inl show ?thesis
      by (simp add: read_wave_from_txt_def create_sound_wave_at_def get_soundwave_def)
  next
    case (Inr f)
    then show ?thesis
      by (simp add: read_wave_from_txt_def create_sound_wave_at_def get_soundwave_def)
  qed
next
  fix f
  assume "frequency (take (length filename - 4) filename) = Inr f"
  then show "read_wave_from_txt fs filename =
            Inr (Some \<lparr>note_str = take (length filename - 4) filename,
                       sound_wave = get_normed_sin common_timeline f\<rparr>)"
    by (simp add: read_wave_from_txt_def get_soundwave_def)
qed

theorem C10_read_wave_from_txt_witness:
  "frequency (take (length ''a#2.txt'' - 4) ''a#2.txt'') = Inr 116.5409
   \<and> read_wave_from_txt Map.empty ''a#2.txt'' =
       Inr (Some \<lparr>note_str = ''a#2'', sound_wave = get_normed_sin common_timeline 116.5409\<rparr>)"
proof -
  have h: "frequency (take (length ''a#2.txt'' - 4) ''a#2.txt'') = Inr 116.5409"
    by (simp add: frequency_def NOTES_def)
  have t: "take (length ''a#2.txt'' - 4) ''a#2.txt'' = ''a#2''"
    by simp
  from C10_read_wave_from_txt [of Map.empty "''a#2.txt''" Map.empty]
  have "frequency (take (length ''a#2.txt'' - 4) ''a#2.txt'') = Inr 116.5409 \<longrightarrow>
          read_wave_from_txt Map.empty ''a#2.txt'' =
            Inr (Some \<lparr>note_str = take (length ''a#2.txt'' - 4) ''a#2.txt'',
                       sound_wave = get_normed_sin common_timeline 116.5409\<rparr>)"
    by blast
  with h show ?thesis unfolding t by blast
qed

section \<open>Reshaping an all-zero signal\<close>

text \<open>
  C5, at the signal of two zero samples: both shapes return a signal, of NaN samples,
  where the claim has them fail.
\<close>

theorem C5_all_zero_returns_nan:
  "create_square_wave [Num 0, Num 0] = Inr [NaN, NaN]
   \<and> create_triangular_wave [Num 0, Num 0] = Inr [NaN, NaN]"
  by (simp add: create_square_wave_def create_triangular_wave_def signed_inf_def np_sub_def)

lemma foldl_np_maximum_zero:
  "foldl np_maximum (Num 0) (replicate n (Num 0)) = Num 0"
  by (induction n) simp_all

lemma np_max_abs_zeros:
  "np_max (map np_abs (replicate (Suc n) (Num 0))) = Inr (Num 0)"
  by (simp add: foldl_np_maximum_zero)

lemma all_zero_replicate:
  "(\<forall>x \<in> set xs. x = Num 0) \<Longrightarrow> xs = replicate (length xs) (Num 0)"
  by (induction xs) simp_all

text \<open>
  C5, amended: for a non-empty all-zero signal both shapes (called directly or through
  \<open>convert_wave\<close>) return a signal of the same length whose samples are all NaN, the
  peak divisor being 0; only for the empty signal do they fail, with the
  \<open>ValueError\<close> of the maximum of an empty array.
\<close>

theorem C5_all_zero_reshape:
  "(xs \<noteq> [] \<and> (\<forall>x \<in> set xs. x = Num 0) \<longrightarrow>
      create_square_wave xs = Inr (replicate (length xs) NaN)
      \<and> create_triangular_wave xs = Inr (replicate (length xs) NaN)
      \<and> convert_wave xs ''square'' = Inr (replicate (length xs) NaN)
      \<and> convert_wave xs ''triangular'' = Inr (replicate (length xs) NaN))
   \<and> create_square_wave [] = Inl ValueError
   \<and> create_triangular_wave [] = Inl ValueError"
proof (intro conjI impI)
  assume h: "xs \<noteq> [] \<and> (\<forall>x \<in> set xs. x = Num 0)"
  then obtain n where n: "length xs = Suc n" by (cases xs) auto
  from h have "xs = replicate (length xs) (Num 0)" by (simp add: all_zero_replicate)
  with n have xs: "xs = replicate (Suc n) (Num 0)" by simp
  have m: "np_max (map np_abs xs) = Inr (Num 0)"
    by (subst xs) (rule np_max_abs_zeros)
  have sq: "create_square_wave xs = Inr (map (\<lambda>x. NaN) xs)"
  proof -
    have "np_mul (Num 0.5) (np_add (Num 1) (np_sign (np_div x (Num 0)))) = NaN"
      if "x \<in> set xs" for x
    proof -
      from that h have "x = Num 0" by blast
      then show ?thesis by (simp add: signed_inf_def)
    qed
    then show ?thesis
      unfolding create_square_wave_def m by simp
  qed
  have tr: "create_triangular_wave xs = Inr (map (\<lambda>x. NaN) xs)"
  proof -
    have "(let normalized_sine = np_div x (Num 0)
           in np_sub
                (np_mul (Num 2)
                   (np_abs (np_mul (Num 2)
                      (np_sub normalized_sine (np_floor (np_add normalized_sine (Num 0.5)))))))
                (Num 1)) = NaN"
      if "x \<in> set xs" for x
    proof -
      from that h have "x = Num 0" by blast
      then show ?thesis by (simp add: signed_inf_def np_sub_def)
    qed
    then show ?thesis
      unfolding create_triangular_wave_def m by simp
  qed
  have r: "map (\<lambda>x. NaN) xs = replicate (length xs) NaN"
    by (simp add: map_replicate_const)
  show "create_square_wave xs = Inr (replicate (length xs) NaN)" using sq r by simp
  show "create_triangular_wave xs = Inr (replicate (length xs) NaN)" using tr r by simp
  show "convert_wave xs ''square'' = Inr (replicate (length xs) NaN)"
    using sq r by (simp add: convert_wave_def)
  show "convert_wave xs ''triangular'' = Inr (replicate (length xs) NaN)"
    using tr r by (simp add: convert_wave_def)
next
  show "create_square_wave [] = Inl ValueError" by (simp add: create_square_wave_def)
  show "create_triangular_wave [] = Inl ValueError" by (simp add: create_triangular_wave_def)
qed

theorem C5_all_zero_reshape_witness:
  "[Num 0, Num 0, Num 0] \<noteq> [] \<and> set [Num 0, Num 0, Num 0] = {Num 0}
   \<and> create_square_wave [Num 0, Num 0, Num 0] = Inr [NaN, NaN, NaN]
   \<and> create_triangular_wave [Num 0, Num 0, Num 0] = Inr [NaN, NaN, NaN]"
proof -
  have s: "set [Num 0, Num 0, Num 0] = {Num 0}"
    by simp
  then have h: "[Num 0, Num 0, Num 0] \<noteq> [] \<and> (\<forall>x \<in> set [Num 0, Num 0, Num 0]. x = Num 0)"
    by simp
  have r: "replicate (length [Num 0, Num 0, Num 0]) NaN = [NaN, NaN, NaN]"
    by (simp add: numeral_3_eq_3)
  from C5_all_zero_reshape [of "[Num 0, Num 0, Num 0]"] h
  have "create_square_wave [Num 0, Num 0, Num 0] = Inr (replicate (length [Num 0, Num 0, Num 0]) NaN)
        \<and> create_triangular_wave [Num 0, Num 0, Num 0] = Inr (replicate (length [Num 0, Num 0, Num 0]) NaN)"
    by blast
  with s show ?thesis unfolding r by blast
qed

section \<open>Peaks of finite signals\<close>

lemma foldl_np_maximum_Num:
  "foldl np_maximum (Num a) (map Num bs) = Num (foldl max a bs)"
  by (induction bs arbitrary: a) simp_all

lemma foldl_max_Max: "foldl max (a::real) bs = Max (set (a # bs))"
proof (induction bs arbitrary: a)
  case Nil
  then show ?case by simp
next
  case (Cons b bs)
  have "Max (set (max a b # bs)) = Max (set (a # b # bs))"
    by (cases "bs = []") (simp_all add: max.assoc)
  with Cons show ?case by simp
qed

lemma np_max_abs_finite:
  "rs \<noteq> [] \<Longrightarrow> np_max (map np_abs (map Num rs)) = Inr (Num (Max (set (map abs rs))))"
proof -
  assume "rs \<noteq> []"
  then obtain r rs' where rs: "rs = r # rs'" by (cases rs) auto
  have "map np_abs (map Num rs') = map Num (map abs rs')" by simp
  then have "np_max (map np_abs (map Num rs)) = Inr (Num (foldl max \<bar>r\<bar> (map abs rs')))"
    by (simp add: rs foldl_np_maximum_Num del: map_map)
  then show ?thesis by (simp add: foldl_max_Max rs)
qed

lemma Max_abs_pos:
  "\<exists>r \<in> set rs. r \<noteq> (0::real) \<Longrightarrow> 0 < Max (set (map abs rs))"
proof -
  assume "\<exists>r \<in> set rs. r \<noteq> 0"
  then obtain r where r: "r \<in> set rs" "r \<noteq> 0" by blast
  then have "\<bar>r\<bar> \<le> Max (set (map abs rs))" by (intro Max_ge) auto
  moreover from r have "0 < \<bar>r\<bar>" by simp
  ultimately show ?thesis by (rule less_le_trans [rotated])
qed

section \<open>The square shape\<close>

lemma create_square_wave_finite:
  assumes "\<exists>r \<in> set rs. r \<noteq> 0"
  shows "create_square_wave (map Num rs) = Inr (map (\<lambda>r. Num ((1 + sgn r) / 2)) rs)"
proof -
  from assms have ne: "rs \<noteq> []" by auto
  define m where "m = Max (set (map abs rs))"
  from assms have m: "0 < m" unfolding m_def by (rule Max_abs_pos)
  have p: "np_max (map np_abs (map Num rs)) = Inr (Num m)"
    unfolding m_def using ne by (rule np_max_abs_finite)
  have "np_mul (Num 0.5) (np_add (Num 1) (np_sign (np_div (Num r) (Num m)))) = Num ((1 + sgn r) / 2)"
    for r
    using m by simp
  then show ?thesis
    unfolding create_square_wave_def p by simp
qed

lemma get_normed_sin_finite:
  "get_normed_sin (map Num ts) f =
     map Num (map (\<lambda>t. real MAX_AMPLITUDE * sin (2 * pi * f * t)) ts)"
  by (simp add: get_normed_sin_def)

text \<open>
  C4, amended: for a sine signal over a timeline of finite points that is not all-zero,
  the square shape returns a signal of the same length whose samples are 0, 1/2 or 1;
  a sample is 1/2 exactly where the sine sample is 0, and so the first sample is 1/2
  when the timeline starts at 0.
\<close>

theorem C4_square_levels:
  assumes "\<exists>x \<in> set (get_normed_sin (map Num ts) f). x \<noteq> Num 0"
  shows "\<exists>ys. create_square_wave (get_normed_sin (map Num ts) f) = Inr ys
           \<and> length ys = length ts
           \<and> (\<forall>k < length ts.
                 (ys ! k = Num 0 \<or> ys ! k = Num (1 / 2) \<or> ys ! k = Num 1)
                 \<and> (ys ! k = Num (1 / 2) \<longleftrightarrow> get_normed_sin (map Num ts) f ! k = Num 0))
           \<and> (ts \<noteq> [] \<and> hd ts = 0 \<longrightarrow> hd ys = Num (1 / 2))"
proof -
  define rs where "rs = map (\<lambda>t. real MAX_AMPLITUDE * sin (2 * pi * f * t)) ts"
  have g: "get_normed_sin (map Num ts) f = map Num rs"
    unfolding rs_def by (rule get_normed_sin_finite)
  from assms have "\<exists>r \<in> set rs. r \<noteq> 0" unfolding g by auto
  then have sq: "create_square_wave (map Num rs) = Inr (map (\<lambda>r. Num ((1 + sgn r) / 2)) rs)"
    by (rule create_square_wave_finite)
  let ?ys = "map (\<lambda>r. Num ((1 + sgn r) / 2)) rs"
  have len: "length ?ys = length ts" by (simp add: rs_def)
  have lv: "(?ys ! k = Num 0 \<or> ?ys ! k = Num (1 / 2) \<or> ?ys ! k = Num 1)
            \<and> (?ys ! k = Num (1 / 2) \<longleftrightarrow> map Num rs ! k = Num 0)" if "k < length ts" for k
  proof -
    from that have k: "k < length rs" by (simp add: rs_def)
    then have y: "?ys ! k = Num ((1 + sgn (rs ! k)) / 2)" and x: "map Num rs ! k = Num (rs ! k)"
      by simp_all
    show ?thesis unfolding y x
      by (cases "rs ! k" "0::real" rule: linorder_cases) simp_all
  qed
  have hd0: "hd ?ys = Num (1 / 2)" if "ts \<noteq> [] \<and> hd ts = 0"
  proof -
    from that obtain ts' where "ts = 0 # ts'" by (cases ts) auto
    then show ?thesis by (simp add: rs_def)
  qed
  show ?thesis
    unfolding g sq using len lv hd0 by blast
qed


lemma sin_pos_frac: "0 < q \<Longrightarrow> q < 1 \<Longrightarrow> 0 < sin (pi * q)"
proof -
  assume q: "0 < q" "q < 1"
  then have "0 < pi * q" by simp
  moreover from q have "pi * q < pi * 1" by (intro mult_strict_left_mono) simp_all
  ultimately show ?thesis by (simp add: sin_gt_zero)
qed

lemma upt_4: "[0..<4] = [0, 1, 2, 3]"
  by code_simp

lemma timeline_4:
  "\<exists>a b c. set_custom_common_timeline (Num 0.0001) = Inr (map Num [0, a, b, c])
     \<and> 0 < a \<and> a < 1 / 880 \<and> 0 < b \<and> b < 1 / 880 \<and> 0 < c \<and> c < 1 / 880"
proof -
  have x: "real SAMPLING_RATE * 0.0001 = 441 / 100" by (simp add: SAMPLING_RATE_def)
  have "\<lfloor>round_double (441 / 100)\<rfloor> = \<lfloor>441 / 100 :: real\<rfloor>"
    by (rule floor_round_double_same) simp_all
  then have n: "nat \<lfloor>round_double (real SAMPLING_RATE * 0.0001)\<rfloor> = 4"
    unfolding x by simp
  have e: "set_custom_common_timeline (Num 0.0001) =
      Inr (map (\<lambda>k. Num (real k * (0.0001
                 / real (nat \<lfloor>round_double (real SAMPLING_RATE * 0.0001)\<rfloor>))))
             [0..<nat \<lfloor>round_double (real SAMPLING_RATE * 0.0001)\<rfloor>])"
    by (rule set_custom_common_timeline_at_Num) simp
  have "set_custom_common_timeline (Num 0.0001) =
      Inr (map Num [0, 1 * (0.0001 / 4), 2 * (0.0001 / 4), 3 * (0.0001 / 4)])"
    unfolding e n by (simp add: upt_4)
  then show ?thesis by (intro exI conjI) (assumption, simp_all)
qed

lemma a4_sin_pos: "0 < t \<Longrightarrow> t < 1 / 880 \<Longrightarrow> 0 < sin (2 * pi * 440 * t)"
proof -
  assume t: "0 < t" "t < 1 / 880"
  have e: "2 * pi * 440 * t = pi * (880 * t)" by simp
  from t show ?thesis unfolding e by (intro sin_pos_frac) simp_all
qed

lemma a4_square_start:
  assumes "0 < a" "a < 1 / 880" "0 < b" "b < 1 / 880" "0 < c" "c < 1 / 880"
  shows "create_square_wave (get_normed_sin (map Num [0, a, b, c]) 440)
         = Inr [Num (1 / 2), Num 1, Num 1, Num 1]"
proof -
  from assms have p: "0 < sin (2 * pi * 440 * a)" "0 < sin (2 * pi * 440 * b)"
      "0 < sin (2 * pi * 440 * c)"
    by (simp_all only: a4_sin_pos)
  then have nz: "\<exists>r \<in> set (map (\<lambda>t. real MAX_AMPLITUDE * sin (2 * pi * 440 * t)) [0, a, b, c]).
      r \<noteq> 0"
    by (simp add: MAX_AMPLITUDE_def)
  show ?thesis
    unfolding get_normed_sin_finite create_square_wave_finite [OF nz]
    using p by (simp add: MAX_AMPLITUDE_def sgn_mult)
qed

text \<open>
  C4, at the note \<open>a4\<close> over 0.0001 seconds (four samples): the first sample of the
  square shape is 1/2, neither 0 nor 1.
\<close>

theorem C4_first_sample_half:
  "(case create_sound_wave ''a4'' (Some (Num 0.0001)) of
      Inl e \<Rightarrow> Inl e
    | Inr w \<Rightarrow> create_square_wave (sound_wave w))
   = Inr [Num (1 / 2), Num 1, Num 1, Num 1]"
proof -
  have f: "frequency ''a4'' = Inr 440"
    by (simp add: frequency_def NOTES_def)
  from timeline_4 obtain a b c where
    tl: "set_custom_common_timeline (Num 0.0001) = Inr (map Num [0, a, b, c])"
    and r: "0 < a" "a < 1 / 880" "0 < b" "b < 1 / 880" "0 < c" "c < 1 / 880"
    by blast
  have "create_sound_wave ''a4'' (Some (Num 0.0001)) =
          Inr \<lparr>note_str = ''a4'', sound_wave = get_normed_sin (map Num [0, a, b, c]) 440\<rparr>"
    using tl f by (simp add: create_sound_wave_at_def get_soundwave_def)
  then show ?thesis
    using a4_square_start [OF r] by simp
qed

theorem C4_square_levels_witness:
  "(\<exists>x \<in> set (get_normed_sin (map Num [0, 1 / 40000]) 440). x \<noteq> Num 0)
   \<and> (\<exists>ys. create_square_wave (get_normed_sin (map Num [0, 1 / 40000]) 440) = Inr ys
          \<and> length ys = 2 \<and> hd ys = Num (1 / 2))"
proof -
  have "0 < sin (2 * pi * 440 * (1 / 40000))" by (rule a4_sin_pos) simp_all
  then have "real MAX_AMPLITUDE * sin (2 * pi * 440 * (1 / 40000)) \<noteq> 0"
    by (simp add: MAX_AMPLITUDE_def)
  then have h: "\<exists>x \<in> set (get_normed_sin (map Num [0, 1 / 40000]) 440). x \<noteq> Num 0"
    unfolding get_normed_sin_finite by simp
  from C4_square_levels [OF h] h show ?thesis by auto
qed

section \<open>Normalisation\<close>







section \<open>The ADSR envelope\<close>

lemma assign_loop_upto:
  assumes "0 \<le> base + lo" and "base + hi < int (length env)"
  shows "\<exists>env'. assign_loop base val [lo..hi] env = Inr env'
           \<and> length env' = length env
           \<and> (\<forall>k < length env.
                 env' ! k = (if base + lo \<le> int k \<and> int k \<le> base + hi
                             then Num (val (int k - base)) else env ! k))"
  using assms
proof (induction "nat (hi + 1 - lo)" arbitrary: lo env)
  case 0
  then have hl: "hi < lo" by simp
  then have "assign_loop base val [lo..hi] env = Inr env" by simp
  moreover from hl have "env ! k = (if base + lo \<le> int k \<and> int k \<le> base + hi
                             then Num (val (int k - base)) else env ! k)" for k
    by auto
  ultimately show ?case by blast
next
  case (Suc m)
  then have le: "lo \<le> hi" by simp
  then have u: "[lo..hi] = lo # [lo + 1..hi]" by (rule upto_rec1)
  let ?j = "nat (base + lo)"
  let ?env1 = "env[?j := Num (val lo)]"
  from Suc.prems le have j: "?j < length env" by simp
  from Suc.prems le have s: "np_setitem env (base + lo) (Num (val lo)) = Inr ?env1"
    by (simp add: np_setitem_def)
  from Suc.hyps(2) have m: "m = nat (hi + 1 - (lo + 1))" by simp
  from Suc.prems have p: "0 \<le> base + (lo + 1)" "base + hi < int (length ?env1)" by simp_all
  from Suc.hyps(1) [OF m p] obtain env' where
    e: "assign_loop base val [lo + 1..hi] ?env1 = Inr env'"
    and l: "length env' = length ?env1"
    and n: "\<forall>k < length ?env1.
               env' ! k = (if base + (lo + 1) \<le> int k \<and> int k \<le> base + hi
                           then Num (val (int k - base)) else ?env1 ! k)"
    by blast
  have "assign_loop base val [lo..hi] env = Inr env'"
    by (simp add: u s e)
  moreover have "length env' = length env" using l by simp
  moreover have "env' ! k = (if base + lo \<le> int k \<and> int k \<le> base + hi
                             then Num (val (int k - base)) else env ! k)"
    if k: "k < length env" for k
  proof (cases "k = ?j")
    case True
    with Suc.prems have ik: "int k = base + lo" by simp
    then have "int k - base = lo" by simp
    with n k True j le ik show ?thesis by simp
  next
    case False
    with Suc.prems have "int k \<noteq> base + lo" by auto
    with n k False show ?thesis by auto
  qed
  ultimately show ?case by blast
qed

lemma assign_loop_range:
  assumes "0 \<le> base" and "base + c \<le> int (length env)"
  shows "\<exists>env'. assign_loop base val (py_range c) env = Inr env'
           \<and> length env' = length env
           \<and> (\<forall>k < length env.
                 env' ! k = (if base \<le> int k \<and> int k < base + c
                             then Num (val (int k - base)) else env ! k))"
proof -
  from assms have "0 \<le> base + 0" "base + (c - 1) < int (length env)" by simp_all
  from assign_loop_upto [OF this, of val] obtain env' where
    e: "assign_loop base val [0..c - 1] env = Inr env'"
    and l: "length env' = length env"
    and n: "\<forall>k < length env.
               env' ! k = (if base + 0 \<le> int k \<and> int k \<le> base + (c - 1)
                           then Num (val (int k - base)) else env ! k)"
    by blast
  have q: "(base + 0 \<le> int k \<and> int k \<le> base + (c - 1)) = (base \<le> int k \<and> int k < base + c)"
    for k by auto
  from n have "\<forall>k < length env.
               env' ! k = (if base \<le> int k \<and> int k < base + c
                           then Num (val (int k - base)) else env ! k)"
    unfolding q .
  with e l show ?thesis unfolding py_range_def by blast
qed

lemma np_setslice_nth:
  "k < length a \<Longrightarrow>
     np_setslice a lo hi v ! k =
       (if slice_bound (length a) lo \<le> k \<and> k < slice_bound (length a) hi then v else a ! k)"
  by (simp add: np_setslice_def Let_def)

lemma length_np_setslice: "length (np_setslice a lo hi v) = length a"
  by (simp add: np_setslice_def Let_def)


lemma driver_sample_counts:
  "trunc (0.1 * real SAMPLING_RATE) = 4410"
  "trunc (real 220500 / real SAMPLING_RATE - (0.1 + 0.1 + 0.1)) = 4"
  by (simp_all add: trunc_def SAMPLING_RATE_def)

lemma driver_envelope:
  "\<exists>envelope. adsr_envelope 220500 0.1 0.1 0.5 0.1 = Inr envelope
      \<and> length envelope = 220500
      \<and> envelope ! 8823 = Num 0.5
      \<and> envelope ! 112455 = Num 0
      \<and> envelope ! 216089 = Num 0"
proof -
  let ?e0 = "replicate 220500 (Num 0)"
  let ?v1 = "\<lambda>i. real_of_int i / real_of_int 4410"
  let ?v2 = "\<lambda>i. 1 - (real_of_int i / real_of_int 4410) * (1 - 0.5)"
  let ?v3 = "\<lambda>i. 0.5 * (1 - (real_of_int i / real_of_int 4410))"
  have "\<exists>env'. assign_loop 0 ?v1 (py_range 4410) ?e0 = Inr env'
           \<and> length env' = length ?e0
           \<and> (\<forall>k < length ?e0.
                 env' ! k = (if 0 \<le> int k \<and> int k < 0 + 4410
                             then Num (?v1 (int k - 0)) else ?e0 ! k))"
    by (rule assign_loop_range) simp_all
  then obtain e1 where e1: "assign_loop 0 ?v1 (py_range 4410) ?e0 = Inr e1"
    and l1: "length e1 = 220500"
    and n1: "e1 ! 8823 = Num 0" "e1 ! 112455 = Num 0" "e1 ! 216089 = Num 0"
    by auto
  have "\<exists>env'. assign_loop 4410 ?v2 (py_range 4410) e1 = Inr env'
           \<and> length env' = length e1
           \<and> (\<forall>k < length e1.
                 env' ! k = (if 4410 \<le> int k \<and> int k < 4410 + 4410
                             then Num (?v2 (int k - 4410)) else e1 ! k))"
    by (rule assign_loop_range) (simp_all add: l1)
  then obtain e2 where e2: "assign_loop 4410 ?v2 (py_range 4410) e1 = Inr e2"
    and l2: "length e2 = 220500"
    and n2: "e2 ! 8823 = Num 0" "e2 ! 112455 = Num 0" "e2 ! 216089 = Num 0"
    using l1 n1 by auto
  let ?e3 = "np_setslice e2 (4410 + 4410) (4410 + 4410 + 4) (Num 0.5)"
  have l3: "length ?e3 = 220500"
    by (simp add: length_np_setslice l2)
  have n3: "?e3 ! 8823 = Num 0.5" "?e3 ! 112455 = Num 0" "?e3 ! 216089 = Num 0"
    using n2 by (simp_all add: np_setslice_nth l2 slice_bound_def)
  have "\<exists>env'. assign_loop (4410 + 4410 + 4) ?v3 (py_range 4410) ?e3 = Inr env'
           \<and> length env' = length ?e3
           \<and> (\<forall>k < length ?e3.
                 env' ! k = (if 4410 + 4410 + 4 \<le> int k \<and> int k < 4410 + 4410 + 4 + 4410
                             then Num (?v3 (int k - (4410 + 4410 + 4))) else ?e3 ! k))"
    by (rule assign_loop_range) (simp_all add: length_np_setslice l2)
  then obtain e4 where e4: "assign_loop (4410 + 4410 + 4) ?v3 (py_range 4410) ?e3 = Inr e4"
    and l4: "length e4 = length ?e3"
    and a4: "\<forall>k < length ?e3.
                 e4 ! k = (if 4410 + 4410 + 4 \<le> int k \<and> int k < 4410 + 4410 + 4 + 4410
                             then Num (?v3 (int k - (4410 + 4410 + 4))) else ?e3 ! k)"
    by blast
  have l4: "length e4 = 220500" using l4 l3 by simp
  have "e4 ! 8823 = ?e3 ! 8823" "e4 ! 112455 = ?e3 ! 112455" "e4 ! 216089 = ?e3 ! 216089"
    using a4 unfolding l3 by simp_all
  with n3 have n4: "e4 ! 8823 = Num 0.5" "e4 ! 112455 = Num 0" "e4 ! 216089 = Num 0"
    by simp_all
  have "adsr_envelope 220500 0.1 0.1 0.5 0.1 = Inr e4"
    unfolding adsr_envelope_def Let_def driver_sample_counts
    using e1 e2 e4 by simp
  with l4 n4 show ?thesis by blast
qed

lemma np_mul_one: "np_mul (Num 1) x = x"
  by (cases x) (simp_all add: signed_inf_def)

lemma map2_np_mul_ones:
  "length envelope = n \<Longrightarrow> map2 np_mul (replicate n (Num 1)) envelope = envelope"
  by (rule nth_equalityI) (simp_all add: np_mul_one)

text \<open>
  C1, at the call of the driver: a signal of 220500 samples (5 seconds) with attack,
  decay and release of 0.1 seconds and sustain level 0.5. The claim has the gain 0.5
  from sample 8820 up to sample 216090. On a signal of ones the output
  is the envelope itself. It has the length of the signal, but
  \<open>sustain_samples\<close> is a number of seconds, 4, so the gain is 0.5 on samples 8820
  to 8823 only, the release follows at once, and the gain is 0 at the sustain midpoint
  112455 and at the end of the range, 216089.
\<close>

theorem C1_sustain_midpoint_gain:
  "\<exists>envelope. adsr_envelope 220500 0.1 0.1 0.5 0.1 = Inr envelope
      \<and> perform_adsr_mods \<lparr>note_str = ''a#4'', sound_wave = replicate 220500 (Num 1)\<rparr>
            0.1 0.1 0.5 0.1
          = Inr \<lparr>note_str = ''a#4'', sound_wave = envelope\<rparr>
      \<and> length envelope = 220500
      \<and> envelope ! 8823 = Num 0.5
      \<and> envelope ! 112455 = Num 0
      \<and> envelope ! 216089 = Num 0"
proof -
  from driver_envelope obtain e where
    e: "adsr_envelope 220500 0.1 0.1 0.5 0.1 = Inr e" and l: "length e = 220500"
    and n: "e ! 8823 = Num 0.5" "e ! 112455 = Num 0" "e ! 216089 = Num 0"
    by blast
  have "perform_adsr_mods \<lparr>note_str = ''a#4'', sound_wave = replicate 220500 (Num 1)\<rparr>
            0.1 0.1 0.5 0.1
          = Inr \<lparr>note_str = ''a#4'', sound_wave = e\<rparr>"
    unfolding perform_adsr_mods_def using e l by (simp add: map2_np_mul_ones)
  with e l n show ?thesis by blast
qed

section \<open>Melodies\<close>




lemma round_double_1: "round_double 1 = 1"
  using round_double_of_nat [of 1] by simp

lemma py_float_1: "py_float ''1'' = Inr (Num 1)"
  by (simp add: py_float_def py_strip_def is_space_def take_sign_def to_lower_def
      float_number_def is_digit_def digit_val_def digits_value_def round_double_1)


lemma frequency_a4: "frequency ''a4'' = Inr 440"
  by (simp add: frequency_def NOTES_def)

lemma create_sound_wave_a4:
  "create_sound_wave_at rate ''a4'' (Some d) =
     (case set_custom_common_timeline_at rate d of
        Inl e \<Rightarrow> Inl e
      | Inr timeline \<Rightarrow> Inr \<lparr>note_str = ''a4'', sound_wave = get_normed_sin timeline 440\<rparr>)"
  by (simp add: create_sound_wave_at_def get_soundwave_def frequency_a4 split: sum.splits)













section \<open>The amplitude ceiling\<close>

lemma amplitude_within_iff:
  "amplitude_within B xs \<longleftrightarrow> (\<forall>x \<in> set xs. \<exists>r. x = Num r \<and> \<bar>r\<bar> \<le> B)"
proof -
  have "(case x of Num r \<Rightarrow> \<bar>r\<bar> \<le> B | _ \<Rightarrow> False) \<longleftrightarrow> (\<exists>r. x = Num r \<and> \<bar>r\<bar> \<le> B)"
    for x by (cases x) simp_all
  then show ?thesis by (simp add: amplitude_within_def list_all_iff)
qed

lemma amplitude_within_mono: "amplitude_within B xs \<Longrightarrow> B \<le> C \<Longrightarrow> amplitude_within C xs"
  by (fastforce simp: amplitude_within_iff)

lemma amplitude_within_get_normed_sin:
  "amplitude_within (real MAX_AMPLITUDE) (get_normed_sin (map Num ts) f)"
proof -
  have "\<bar>real MAX_AMPLITUDE * sin x\<bar> \<le> real MAX_AMPLITUDE" for x
  proof -
    have "\<bar>real MAX_AMPLITUDE * sin x\<bar> = real MAX_AMPLITUDE * \<bar>sin x\<bar>"
      by (simp add: abs_mult)
    also have "\<dots> \<le> real MAX_AMPLITUDE * 1"
      by (intro mult_left_mono) simp_all
    finally show ?thesis by simp
  qed
  then show ?thesis
    by (auto simp: amplitude_within_iff get_normed_sin_def)
qed

lemma linspace_points_finite:
  "\<exists>ts. linspace_points (Num s) n endpoint = map Num ts"
proof -
  define dv where "dv = (if endpoint then n - 1 else n)"
  define st where "st = (if 0 < dv then s / real dv else s)"
  let ?y = "map (\<lambda>k. real k * st) [0..<n]"
  have y: "map (\<lambda>k. np_mul (Num (real k)) (if 0 < dv then np_div (Num s) (Num (real dv)) else Num s))
             [0..<n] = map Num ?y"
    by (simp add: st_def)
  have "linspace_points (Num s) n endpoint =
          (if endpoint \<and> 1 < n then (map Num ?y)[n - 1 := Num s] else map Num ?y)"
    unfolding linspace_points_def Let_def dv_def [symmetric] y ..
  also have "\<dots> = map Num (if endpoint \<and> 1 < n then ?y[n - 1 := s] else ?y)"
    by (simp add: map_update)
  finally show ?thesis by blast
qed

lemma common_timeline_finite: "\<exists>ts. common_timeline = map Num ts"
  unfolding common_timeline_at_def by (rule linspace_points_finite)

lemma py_int_Inr: "py_int x = Inr n \<Longrightarrow> \<exists>r. x = Num r"
  by (cases x) simp_all

lemma np_mul_Num_finite: "np_mul (Num a) d = Num r \<Longrightarrow> \<exists>t. d = Num t"
  by (cases d) (simp_all add: signed_inf_def split: if_splits)

lemma py_float_mul_Num_finite: "py_float_mul (Num a) d = Num r \<Longrightarrow> \<exists>t. d = Num t"
  by (cases d) (simp_all add: py_float_mul_def signed_inf_def split: if_splits)

lemma set_custom_common_timeline_finite:
  assumes "set_custom_common_timeline d = Inr timeline"
  shows "\<exists>ts. timeline = map Num ts"
proof -
  from assms obtain n where n: "py_int (py_float_mul (Num (real SAMPLING_RATE)) d) = Inr n"
    and l: "np_linspace d n False = Inr timeline"
    by (auto simp: set_custom_common_timeline_at_def split: sum.splits)
  from n obtain r where "py_float_mul (Num (real SAMPLING_RATE)) d = Num r"
    by (blast dest: py_int_Inr)
  then obtain t where d: "d = Num t" by (blast dest: py_float_mul_Num_finite)
  from l have "timeline = linspace_points (Num t) (nat n) False"
    by (auto simp: np_linspace_def d split: if_splits)
  then show ?thesis using linspace_points_finite by simp
qed

lemma create_sound_wave_within:
  assumes "create_sound_wave note duration = Inr w"
  shows "amplitude_within (real MAX_AMPLITUDE) (sound_wave w)"
proof -
  from assms obtain timeline f where
    t: "(case duration of Some d \<Rightarrow> set_custom_common_timeline d | None \<Rightarrow> Inr common_timeline)
          = Inr timeline"
    and w: "sound_wave w = get_normed_sin timeline f"
    by (auto simp: create_sound_wave_at_def get_soundwave_def split: sum.splits)
  from t have "\<exists>ts. timeline = map Num ts"
    by (cases duration)
       (auto dest: set_custom_common_timeline_finite simp: common_timeline_finite)
  then show ?thesis unfolding w using amplitude_within_get_normed_sin by auto
qed

lemma np_iadd_within:
  assumes "np_iadd a b = Inr c" and "amplitude_within A a" and "amplitude_within B b"
  shows "amplitude_within (A + B) c \<and> length c = length a"
proof (cases "length b = length a")
  case True
  with assms(1) have c: "c = map2 np_add a b" by (simp add: np_iadd_def)
  have "\<exists>r. np_add x y = Num r \<and> \<bar>r\<bar> \<le> A + B" if "(x, y) \<in> set (zip a b)" for x y
  proof -
    from that have "x \<in> set a" "y \<in> set b" by (auto dest: set_zip_leftD set_zip_rightD)
    with assms(2,3) have "\<exists>p. x = Num p \<and> \<bar>p\<bar> \<le> A" "\<exists>q. y = Num q \<and> \<bar>q\<bar> \<le> B"
      by (simp_all add: amplitude_within_iff)
    then obtain p q where "x = Num p" "\<bar>p\<bar> \<le> A" "y = Num q" "\<bar>q\<bar> \<le> B"
      by blast
    then show ?thesis by simp
  qed
  then have "amplitude_within (A + B) c"
    unfolding c amplitude_within_iff by auto
  with True c show ?thesis by simp
next
  case False
  with assms(1) have one: "length b = 1" and c: "c = map (\<lambda>x. np_add x (hd b)) a"
    by (auto simp: np_iadd_def split: if_splits)
  from one have "hd b \<in> set b" by (cases b) simp_all
  with assms(3) have "\<exists>q. hd b = Num q \<and> \<bar>q\<bar> \<le> B"
    by (simp add: amplitude_within_iff)
  then obtain q where q: "hd b = Num q" "\<bar>q\<bar> \<le> B"
    by blast
  have "\<exists>r. np_add x (hd b) = Num r \<and> \<bar>r\<bar> \<le> A + B" if "x \<in> set a" for x
  proof -
    from that assms(2) have "\<exists>p. x = Num p \<and> \<bar>p\<bar> \<le> A"
      by (simp add: amplitude_within_iff)
    then obtain p where "x = Num p" "\<bar>p\<bar> \<le> A"
      by blast
    with q show ?thesis by simp
  qed
  then have "amplitude_within (A + B) c"
    unfolding c amplitude_within_iff by auto
  with c show ?thesis by simp
qed

lemma group_loop_within:
  assumes "group_loop names duration gw = Inr g" and "amplitude_within A gw"
  shows "amplitude_within (A + real (length names) * real MAX_AMPLITUDE) g"
  using assms
proof (induction names arbitrary: gw A)
  case Nil
  then show ?case by simp
next
  case (Cons name names)
  from Cons.prems(1) obtain w gw' where
    w: "create_sound_wave name (Some duration) = Inr w"
    and a: "np_iadd gw (sound_wave w) = Inr gw'"
    and r: "group_loop names duration gw' = Inr g"
    by (auto split: sum.splits)
  from w have "amplitude_within (real MAX_AMPLITUDE) (sound_wave w)"
    by (rule create_sound_wave_within)
  with a Cons.prems(2) have "amplitude_within (A + real MAX_AMPLITUDE) gw'"
    by (blast dest: np_iadd_within)
  with r have "amplitude_within (A + real MAX_AMPLITUDE + real (length names) * real MAX_AMPLITUDE) g"
    by (rule Cons.IH)
  then show ?case by (simp add: algebra_simps)
qed

lemma generate_group_wave_within:
  assumes "generate_group_wave notes duration = Inr g"
  shows "amplitude_within (real (length notes) * real MAX_AMPLITUDE) g"
proof -
  from assms have "\<exists>n. group_loop notes duration (replicate (nat n) (Num 0)) = Inr g"
    by (auto simp: generate_group_wave_at_def np_zeros_def split: sum.splits if_splits)
  then obtain n where g: "group_loop notes duration (replicate (nat n) (Num 0)) = Inr g"
    by blast
  have "amplitude_within 0 (replicate (nat n) (Num 0))"
    by (simp add: amplitude_within_iff)
  with g have "amplitude_within (0 + real (length notes) * real MAX_AMPLITUDE) g"
    by (rule group_loop_within)
  then show ?thesis by simp
qed


lemma amplitude_within_concat:
  "(\<forall>w \<in> set ws. amplitude_within B w) \<Longrightarrow> amplitude_within B (concat ws)"
  by (auto simp: amplitude_within_iff)

lemma melody_loop_within:
  assumes "melody_loop tokens = Inr ws" and "1 \<le> K"
    and "\<forall>token \<in> set tokens. is_group token \<longrightarrow> length (py_split (butlast (tl token))) \<le> K"
  shows "\<forall>w \<in> set ws. amplitude_within (real K * real MAX_AMPLITUDE) w"
  using assms(1,3)
proof (induction tokens arbitrary: ws rule: induct_list012)
  case 1
  then show ?case by simp
next
  case (2 token)
  then show ?case by simp
next
  case (3 token next_token tokens)
  from "3.prems"(1) obtain first ws' where ws: "ws = first # ws'"
    and rest: "melody_loop tokens = Inr ws'"
    and first: "(is_group token \<and> (\<exists>d. generate_group_wave (py_split (butlast (tl token))) d = Inr first))
                \<or> (\<exists>d w. create_sound_wave token (Some d) = Inr w \<and> first = sound_wave w)"
    by (auto simp: Let_def split: if_splits sum.splits)
  from rest "3.prems"(2) have r: "\<forall>w \<in> set ws'. amplitude_within (real K * real MAX_AMPLITUDE) w"
    by (intro "3.IH"(1)) simp_all
  from first have "amplitude_within (real K * real MAX_AMPLITUDE) first"
  proof
    assume g: "is_group token \<and> (\<exists>d. generate_group_wave (py_split (butlast (tl token))) d = Inr first)"
    with "3.prems"(2) have k: "length (py_split (butlast (tl token))) \<le> K" by simp
    from g have "amplitude_within
        (real (length (py_split (butlast (tl token)))) * real MAX_AMPLITUDE) first"
      by (blast dest: generate_group_wave_within)
    moreover from k have "real (length (py_split (butlast (tl token)))) * real MAX_AMPLITUDE
        \<le> real K * real MAX_AMPLITUDE"
      by (intro mult_right_mono) simp_all
    ultimately show ?thesis by (rule amplitude_within_mono)
  next
    assume "\<exists>d w. create_sound_wave token (Some d) = Inr w \<and> first = sound_wave w"
    then have "amplitude_within (real MAX_AMPLITUDE) first"
      by (blast dest: create_sound_wave_within)
    moreover have "real MAX_AMPLITUDE \<le> real K * real MAX_AMPLITUDE"
    proof -
      from assms(2) have "1 * real MAX_AMPLITUDE \<le> real K * real MAX_AMPLITUDE"
        by (intro mult_right_mono) simp_all
      then show ?thesis by simp
    qed
    ultimately show ?thesis by (rule amplitude_within_mono)
  qed
  with r ws show ?case by simp
qed

text \<open>
  C2, amended: every sample of a single-note signal is finite and at most
  \<open>MAX_AMPLITUDE\<close> in absolute value; every sample of a chord of \<open>k\<close> notes is at
  most \<open>k * MAX_AMPLITUDE\<close>; and every sample of a melody whose chords have at most
  \<open>K\<close> notes, \<open>K\<close> at least 1, is at most \<open>K * MAX_AMPLITUDE\<close>, which is the
  ceiling itself for a melody without chords of two or more notes.
\<close>

theorem C2_amplitude_ceiling:
  "(\<forall>name duration w. create_sound_wave name duration = Inr w
       \<longrightarrow> amplitude_within (real MAX_AMPLITUDE) (sound_wave w))
   \<and> (\<forall>names duration g. generate_group_wave names duration = Inr g
       \<longrightarrow> amplitude_within (real (length names) * real MAX_AMPLITUDE) g)
   \<and> (\<forall>s melody K. read_notes_string s = Inr melody \<and> 1 \<le> K
         \<and> (\<forall>token \<in> set (findall_tokens s).
               is_group token \<longrightarrow> length (py_split (butlast (tl token))) \<le> K)
       \<longrightarrow> amplitude_within (real K * real MAX_AMPLITUDE) melody)"
proof (intro conjI allI impI)
  fix name duration w
  assume "create_sound_wave name duration = Inr w"
  then show "amplitude_within (real MAX_AMPLITUDE) (sound_wave w)"
    by (rule create_sound_wave_within)
next
  fix names duration g
  assume "generate_group_wave names duration = Inr g"
  then show "amplitude_within (real (length names) * real MAX_AMPLITUDE) g"
    by (rule generate_group_wave_within)
next
  fix s melody K
  assume h: "read_notes_string s = Inr melody \<and> 1 \<le> K
         \<and> (\<forall>token \<in> set (findall_tokens s).
               is_group token \<longrightarrow> length (py_split (butlast (tl token))) \<le> K)"
  then obtain ws where ws: "melody_loop (findall_tokens s) = Inr ws"
    and m: "melody = concat ws"
    by (auto simp: read_notes_string_at_def np_concatenate_def split: sum.splits if_splits)
  from h have k: "1 \<le> K"
    and g: "\<forall>token \<in> set (findall_tokens s).
               is_group token \<longrightarrow> length (py_split (butlast (tl token))) \<le> K"
    by blast+
  from ws k g have "\<forall>w \<in> set ws. amplitude_within (real K * real MAX_AMPLITUDE) w"
    by (rule melody_loop_within)
  then show "amplitude_within (real K * real MAX_AMPLITUDE) melody"
    unfolding m by (rule amplitude_within_concat)
qed

lemma sin_a4_735: "sin (2 * pi * 440 * (real 735 * (1 / real 44100))) = sqrt 3 / 2"
proof -
  have e: "2 * pi * 440 * (real 735 * (1 / real 44100)) = (pi - pi / 3) + 2 * real (7::nat) * pi"
    by simp
  have "sin ((pi - pi / 3) + 2 * real (7::nat) * pi) = sin (pi - pi / 3)"
    unfolding sin_add sin_2npi cos_2npi by simp
  also have "\<dots> = sin (pi / 3)" by (rule sin_pi_minus)
  also have "\<dots> = sqrt 3 / 2" by (rule sin_60)
  finally show ?thesis unfolding e .
qed

lemma tokens_chord: "findall_tokens ''(a4 a4) 1s'' = [''(a4 a4)'', ''1s'']"
  by (simp add: group_match_def is_space_def)

lemma split_chord: "py_split (butlast (tl ''(a4 a4)'')) = [''a4'', ''a4'']"
  by (simp add: is_space_def)

lemma is_group_chord: "is_group ''(a4 a4)''"
  by (simp add: is_group_def)


lemma timeline_1s:
  "set_custom_common_timeline (Num 1) =
     Inr (map (\<lambda>k. Num (real k * (1 / real 44100))) [0..<44100])"
proof -
  have "round_double 44100 = 44100"
    using round_double_of_nat [of 44100] by simp
  then have "nat \<lfloor>round_double (real SAMPLING_RATE * 1)\<rfloor> = 44100"
    by (simp add: SAMPLING_RATE_def)
  with set_custom_common_timeline_at_Num [of 1 SAMPLING_RATE] show ?thesis by simp
qed

lemma np_iadd_maps:
  "np_iadd (map (\<lambda>k. Num (f k)) ks) (map (\<lambda>k. Num (g k)) ks) =
     Inr (map (\<lambda>k. Num (f k + g k)) ks)"
  by (simp add: np_iadd_def zip_map_map zip_same_conv_map o_def)

lemma group_loop_two:
  assumes "create_sound_wave n1 (Some d) = Inr w1" and "create_sound_wave n2 (Some d) = Inr w2"
    and "np_iadd z (sound_wave w1) = Inr g1" and "np_iadd g1 (sound_wave w2) = Inr g2"
  shows "group_loop [n1, n2] d z = Inr g2"
  using assms by simp

lemma chord_a4_a4_1s:
  "\<exists>w. generate_group_wave [''a4'', ''a4''] (Num 1) =
          Inr (map (\<lambda>k. Num (0 + w k + w k)) [0..<44100])
       \<and> w 735 = real MAX_AMPLITUDE * (sqrt 3 / 2)"
proof -
  define w where "w = (\<lambda>k. real MAX_AMPLITUDE * sin (2 * pi * 440 * (real k * (1 / real 44100))))"
  have tl: "set_custom_common_timeline (Num 1) =
     Inr (map (\<lambda>k. Num (real k * (1 / real 44100))) [0..<44100])"
    by (rule timeline_1s)
  have gs: "get_normed_sin (map (\<lambda>k. Num (real k * (1 / real 44100))) [0..<44100]) 440
            = map (\<lambda>k. Num (w k)) [0..<44100]"
    unfolding get_normed_sin_def w_def by (simp add: o_def del: of_nat_numeral)
  have wave: "create_sound_wave ''a4'' (Some (Num 1)) =
     Inr \<lparr>note_str = ''a4'', sound_wave = map (\<lambda>k. Num (w k)) [0..<44100]\<rparr>"
    unfolding create_sound_wave_a4 tl gs [symmetric] by simp
  have "round_double 44100 = 44100"
    using round_double_of_nat [of 44100] by simp
  then have n: "py_int (py_float_mul (Num (real SAMPLING_RATE)) (Num 1)) = Inr 44100"
    by (simp add: py_float_mul_def trunc_def SAMPLING_RATE_def)
  have "replicate 44100 (Num 0) = map (\<lambda>k. Num (0::real)) [0..<44100]"
    by (simp add: map_replicate_const)
  then have zeros: "np_zeros 44100 = Inr (map (\<lambda>k. Num (0::real)) [0..<44100])"
    by (simp add: np_zeros_def)
  have a1: "np_iadd (map (\<lambda>k. Num (0::real)) [0..<44100])
              (sound_wave \<lparr>note_str = ''a4'', sound_wave = map (\<lambda>k. Num (w k)) [0..<44100]\<rparr>)
            = Inr (map (\<lambda>k. Num (0 + w k)) [0..<44100])"
    unfolding SoundWave.simps by (rule np_iadd_maps)
  have a2: "np_iadd (map (\<lambda>k. Num (0 + w k)) [0..<44100])
              (sound_wave \<lparr>note_str = ''a4'', sound_wave = map (\<lambda>k. Num (w k)) [0..<44100]\<rparr>)
            = Inr (map (\<lambda>k. Num (0 + w k + w k)) [0..<44100])"
    unfolding SoundWave.simps by (rule np_iadd_maps)
  have loop: "group_loop [''a4'', ''a4''] (Num 1) (map (\<lambda>k. Num (0::real)) [0..<44100])
          = Inr (map (\<lambda>k. Num (0 + w k + w k)) [0..<44100])"
    by (rule group_loop_two [OF wave wave a1 a2])
  have "generate_group_wave [''a4'', ''a4''] (Num 1) =
          group_loop [''a4'', ''a4''] (Num 1) (map (\<lambda>k. Num (0::real)) [0..<44100])"
    by (simp only: generate_group_wave_at_def n zeros sum.case)
  with loop have g: "generate_group_wave [''a4'', ''a4''] (Num 1) =
          Inr (map (\<lambda>k. Num (0 + w k + w k)) [0..<44100])"
    by (simp only:)
  have "w 735 = real MAX_AMPLITUDE * (sqrt 3 / 2)"
    unfolding w_def sin_a4_735 ..
  with g show ?thesis by blast
qed

lemma melody_chord_a4_a4_1s:
  "\<exists>w. read_notes_string ''(a4 a4) 1s'' = Inr (map (\<lambda>k. Num (0 + w k + w k)) [0..<44100])
       \<and> w 735 = real MAX_AMPLITUDE * (sqrt 3 / 2)"
proof -
  from chord_a4_a4_1s obtain w where
    g: "generate_group_wave [''a4'', ''a4''] (Num 1) =
          Inr (map (\<lambda>k. Num (0 + w k + w k)) [0..<44100])"
    and w: "w 735 = real MAX_AMPLITUDE * (sqrt 3 / 2)"
    by blast
  let ?m = "map (\<lambda>k. Num (0 + w k + w k)) [0..<44100]"
  have b: "butlast ''1s'' = ''1''" by simp
  have ml: "melody_loop [''(a4 a4)'', ''1s''] = Inr [?m]"
    by (simp only: melody_loop_at.simps is_group_chord if_True Let_def split_chord b py_float_1 g
        sum.case)
  have "read_notes_string ''(a4 a4) 1s'' = Inr ?m"
    unfolding read_notes_string_at_def tokens_chord ml by (simp add: np_concatenate_def)
  with w show ?thesis by blast
qed

text \<open>
  C2, at the melody \<open>(a4 a4) 1s\<close>: the chord sums the two sines without rescaling, and
  sample 735 of the melody is \<open>8192 * sqrt 3\<close>, above \<open>MAX_AMPLITUDE\<close>.
\<close>

theorem C2_chord_exceeds_ceiling:
  "\<not> isl (read_notes_string ''(a4 a4) 1s'')
   \<and> projr (read_notes_string ''(a4 a4) 1s'') ! 735 = Num (8192 * sqrt 3)
   \<and> real MAX_AMPLITUDE < 8192 * sqrt 3
   \<and> \<not> amplitude_within (real MAX_AMPLITUDE) (projr (read_notes_string ''(a4 a4) 1s''))"
proof -
  from melody_chord_a4_a4_1s obtain w where
    r: "read_notes_string ''(a4 a4) 1s'' = Inr (map (\<lambda>k. Num (0 + w k + w k)) [0..<44100])"
    and w: "w 735 = real MAX_AMPLITUDE * (sqrt 3 / 2)"
    by blast
  let ?m = "map (\<lambda>k. Num (0 + w k + w k)) [0..<44100]"
  have v: "?m ! 735 = Num (8192 * sqrt 3)"
    using w by (simp add: MAX_AMPLITUDE_def)
  have "1 < sqrt 3" by (simp add: real_less_rsqrt)
  then have lt: "real MAX_AMPLITUDE < 8192 * sqrt 3"
    by (simp add: MAX_AMPLITUDE_def)
  have "Num (8192 * sqrt 3) \<in> set ?m"
    unfolding v [symmetric] by (rule nth_mem) simp
  then have "\<not> amplitude_within (real MAX_AMPLITUDE) ?m"
    using lt unfolding amplitude_within_iff by fastforce
  with r v lt show ?thesis by simp
qed

theorem C2_amplitude_ceiling_witness:
  "\<not> isl (create_sound_wave ''a4'' (Some (Num 1)))
   \<and> amplitude_within (real MAX_AMPLITUDE)
        (sound_wave (projr (create_sound_wave ''a4'' (Some (Num 1)))))
   \<and> \<not> isl (generate_group_wave [''a4'', ''a4''] (Num 1))
   \<and> amplitude_within (2 * real MAX_AMPLITUDE)
        (projr (generate_group_wave [''a4'', ''a4''] (Num 1)))
   \<and> \<not> isl (read_notes_string ''(a4 a4) 1s'')
   \<and> amplitude_within (2 * real MAX_AMPLITUDE) (projr (read_notes_string ''(a4 a4) 1s''))"
proof -
  obtain sw where sw: "create_sound_wave ''a4'' (Some (Num 1)) = Inr sw"
    unfolding create_sound_wave_a4 timeline_1s by simp
  from chord_a4_a4_1s obtain g where
    g: "generate_group_wave [''a4'', ''a4''] (Num 1) = Inr g"
    by blast
  from melody_chord_a4_a4_1s obtain m where
    m: "read_notes_string ''(a4 a4) 1s'' = Inr m"
    by blast
  have k: "\<forall>token \<in> set (findall_tokens ''(a4 a4) 1s'').
             is_group token \<longrightarrow> length (py_split (butlast (tl token))) \<le> 2"
  proof -
    have "length (py_split (butlast (tl ''(a4 a4)''))) \<le> 2"
      unfolding split_chord by simp
    moreover have "\<not> is_group ''1s''"
      by (simp add: is_group_def)
    ultimately show ?thesis
      unfolding tokens_chord by (simp del: butlast.simps list.sel)
  qed
  from C2_amplitude_ceiling sw
  have a: "amplitude_within (real MAX_AMPLITUDE) (sound_wave sw)"
    by blast
  from C2_amplitude_ceiling g
  have "amplitude_within (real (length [''a4'', ''a4'']) * real MAX_AMPLITUDE) g"
    by blast
  then have b: "amplitude_within (2 * real MAX_AMPLITUDE) g"
    by simp
  have "read_notes_string ''(a4 a4) 1s'' = Inr m \<and> 1 \<le> (2::nat)
         \<and> (\<forall>token \<in> set (findall_tokens ''(a4 a4) 1s'').
               is_group token \<longrightarrow> length (py_split (butlast (tl token))) \<le> 2)"
    using m k by simp
  with C2_amplitude_ceiling
  have "amplitude_within (real (2::nat) * real MAX_AMPLITUDE) m"
    by blast
  then have c: "amplitude_within (2 * real MAX_AMPLITUDE) m"
    by simp
  from sw g m a b c show ?thesis by simp
qed


end
